theory Spec2Isabelle
  imports Main "HOL-Library.Word"
begin

unbundle bit_operations_syntax

section \<open>Python values shared by the modules\<close>

text \<open>
  Exceptions are values: a function of the source that can raise returns
  \<open>py_error + 'a\<close>, with \<open>Inl\<close> the exception that leaves the handler.
\<close>

datatype py_error = ValueError | OverflowError | KeyError | AttributeError | OSError

text \<open>
  \<open>len(x)\<close> calls \<open>x.__len__()\<close> and accepts only an index-sized, non-negative
  result: a negative one raises \<open>ValueError\<close>, one above \<open>sys.maxsize\<close> raises
  \<open>OverflowError\<close>. \<open>sys.maxsize\<close> is that of a 64-bit CPython.
\<close>

definition sys_maxsize :: int where
  "sys_maxsize = 2 ^ 63 - 1"

definition py_len :: "int \<Rightarrow> py_error + int" where
  "py_len n = (if n < 0 then Inl ValueError
               else if sys_maxsize < n then Inl OverflowError
               else Inr n)"

text \<open>\<open>str(n)\<close> of an integer, and \<open>int(s)\<close> of a string of decimal digits.\<close>

definition digit_char :: "nat \<Rightarrow> char" where
  "digit_char d = ''0123456789'' ! d"

function str_nat :: "nat \<Rightarrow> string" where
  "str_nat n = (if n < 10 then [digit_char n]
                else str_nat (n div 10) @ [digit_char (n mod 10)])"
  by pat_completeness auto
termination
  by (relation "measure id") auto

declare str_nat.simps [simp del]

definition str_int :: "int \<Rightarrow> string" where
  "str_int i = (if i < 0 then CHR ''-'' # str_nat (nat (- i)) else str_nat (nat i))"

definition is_digit :: "char \<Rightarrow> bool" where
  "is_digit c = (48 \<le> (of_char c :: nat) \<and> (of_char c :: nat) \<le> 57)"

definition digit_val :: "char \<Rightarrow> nat" where
  "digit_val c = of_char c - 48"

definition int_digits :: "string \<Rightarrow> nat" where
  "int_digits s = foldl (\<lambda>acc c. 10 * acc + digit_val c) 0 s"

section \<open>http\_.py: byte ranges and file replies\<close>

text \<open>
  \<open>Range._parser.fullmatch(header)\<close> for the pattern \<open>bytes=(\d+)-(\d+)?\<close>: the
  two groups of a match, the second \<open>None\<close> when it took part in no match. Header
  values are Latin-1 text, where \<open>\d\<close> is the ten ASCII digits. The first group
  is greedy and the next character must be \<open>-\<close>, so it is the longest run of
  digits after \<open>bytes=\<close>.
\<close>

definition parse_range :: "string \<Rightarrow> (string \<times> string option) option" where
  "parse_range header =
     (if take 6 header = ''bytes='' then
        (let rest = drop 6 header; start = takeWhile is_digit rest in
           (case dropWhile is_digit rest of
              [] \<Rightarrow> None
            | c # stop \<Rightarrow>
                if start \<noteq> [] \<and> c = CHR ''-'' \<and> list_all is_digit stop
                then Some (start, if stop = [] then None else Some stop)
                else None))
      else None)"

record byte_range =
  r_partial :: bool
  r_size :: int
  r_start :: int
  r_end :: int

text \<open>
  \<open>Range(path, header)\<close>, given \<open>path.stat().st_size\<close>. A group that is \<open>None\<close> or
  empty is falsy and takes the default.
\<close>

definition Range_init :: "int \<Rightarrow> string \<Rightarrow> byte_range" where
  "Range_init fsize header =
     (case parse_range header of
        Some (start, stop) \<Rightarrow>
          \<lparr> r_partial = True,
            r_size = fsize,
            r_start = (if start \<noteq> [] then int (int_digits start) else 0),
            r_end = (case stop of
                       Some e \<Rightarrow> if e \<noteq> [] then int (int_digits e) else fsize - 1
                     | None \<Rightarrow> fsize - 1) \<rparr>
      | None \<Rightarrow>
          \<lparr> r_partial = False, r_size = fsize, r_start = 0, r_end = fsize - 1 \<rparr>)"

text \<open>\<open>Range.__str__\<close> and \<open>Range.__len__\<close>.\<close>

definition range_str :: "byte_range \<Rightarrow> string" where
  "range_str r = ''bytes '' @ str_int (r_start r) @ ''-'' @ str_int (r_end r)
                   @ ''/'' @ str_int (r_size r)"

definition range_len :: "byte_range \<Rightarrow> int" where
  "range_len r = r_end r - r_start r + 1"

text \<open>
  A regular file under the media root: the MIME string libmagic reports for it and
  its bytes. \<open>st_size\<close> is the number of bytes.
\<close>

record media_file =
  f_mime :: string
  f_data :: string

definition st_size :: "media_file \<Rightarrow> int" where
  "st_size f = int (length (f_data f))"

text \<open>
  What a handler writes to the client: a status line, the headers in the order they
  are sent and the body; or the reply of the standard library's \<open>send_error\<close> for a
  status code.
\<close>

datatype reply =
    Reply nat "(string \<times> string) list" string
  | Send_error nat

text \<open>
  \<open>Handler.copyfile(fp, offset, count)\<close>: \<open>sendfile\<close> writes at most \<open>count\<close>
  bytes of the file from \<open>offset\<close> and stops at its end.
\<close>

definition copyfile :: "string \<Rightarrow> int \<Rightarrow> int \<Rightarrow> string" where
  "copyfile fp offset count = take (nat count) (drop (nat offset) fp)"

definition send_response_content :: "string \<Rightarrow> int \<Rightarrow> (string \<times> string) list" where
  "send_response_content ctype n =
     [(''Content-Type'', ctype), (''Content-Length'', str_int n)]"

text \<open>
  \<open>Handler.send_file(path, range)\<close>. Each \<open>len(range)\<close> of the source is the same
  call on the same object, so one \<open>py_len\<close> stands for all of them.
\<close>

definition send_file :: "media_file \<Rightarrow> byte_range option \<Rightarrow> py_error + reply" where
  "send_file f range_arg =
     (let rng = (case range_arg of None \<Rightarrow> Range_init (st_size f) [] | Some r \<Rightarrow> r) in
        case py_len (range_len rng) of
          Inl e \<Rightarrow> Inl e
        | Inr n \<Rightarrow>
            if n \<le> 0 then Inr (Send_error 416)
            else Inr (Reply (if r_partial rng then 206 else 200)
                        (send_response_content (f_mime f) n
                           @ (if r_partial rng
                              then [(''Content-Range'', range_str rng)] else []))
                        (copyfile (f_data f) (r_start rng) n)))"

text \<open>
  The \<open>/media\<close> branch of \<open>media.Handler.do_get\<close>: the first argument is the regular
  file the URL names (\<open>None\<close> when \<open>path.is_file()\<close> is false), the second the
  \<open>Range\<close> header when the request has one.
\<close>

definition do_get_media :: "media_file option \<Rightarrow> string option \<Rightarrow> py_error + reply" where
  "do_get_media target range_header =
     (case target of
        None \<Rightarrow> Inr (Send_error 404)
      | Some f \<Rightarrow>
          send_file f (Some (Range_init (st_size f)
                               (case range_header of None \<Rightarrow> [] | Some h \<Rightarrow> h))))"

section \<open>ssdp.py: the address book\<close>

text \<open>
  A Python \<open>dict\<close> keeps its keys in insertion order: an association list with
  distinct keys. Assigning to a key that is present replaces its value in place, to
  a new key appends it.
\<close>

fun setitem :: "'k \<Rightarrow> 'v \<Rightarrow> ('k \<times> 'v) list \<Rightarrow> ('k \<times> 'v) list" where
  "setitem k v [] = [(k, v)]"
| "setitem k v (p # ps) = (if fst p = k then (k, v) # ps else p # setitem k v ps)"

definition delitem :: "'k \<Rightarrow> ('k \<times> 'v) list \<Rightarrow> ('k \<times> 'v) list" where
  "delitem k d = filter (\<lambda>p. fst p \<noteq> k) d"

definition keys :: "('k \<times> 'v) list \<Rightarrow> 'k list" where
  "keys d = map fst d"

text \<open>
  The numbers an expiry can be: an integer of seconds, or \<open>float("inf")\<close>.
  \<open>plus_num now t\<close> is \<open>now + t\<close> and \<open>gt_num now e\<close> is \<open>now > e\<close> for an integer
  \<open>now\<close>.
\<close>

datatype py_num = Num int | PlusInf

fun plus_num :: "int \<Rightarrow> py_num \<Rightarrow> py_num" where
  "plus_num now (Num t) = Num (now + t)"
| "plus_num now PlusInf = PlusInf"

fun gt_num :: "int \<Rightarrow> py_num \<Rightarrow> bool" where
  "gt_num now (Num e) = (e < now)"
| "gt_num now PlusInf = False"

text \<open>\<open>Address._data\<close>, the named tuple stored for an address.\<close>

record data =
  d_timeout :: py_num
  d_packed :: "32 word"

text \<open>
  An \<open>Address\<close> object: the dict it is, and its \<open>timeout\<close> attribute. The class
  attribute \<open>timeout = float("inf")\<close> is what an instance reads until
  \<open>__init__\<close> assigns its own.
\<close>

record address_book =
  entries :: "(string \<times> data) list"
  timeout :: py_num

definition ANY :: string where
  "ANY = ''0.0.0.0''"

definition Address_class :: address_book where
  "Address_class = \<lparr> entries = [], timeout = PlusInf \<rparr>"

text \<open>
  \<open>Address._pack\<close> is \<open>socket.inet_aton\<close> read as a big-endian integer. The C
  library's parser is not part of the repository, so the functions below take it as
  the parameter \<open>pack\<close>: \<open>None\<close> where \<open>inet_aton\<close> raises \<open>OSError\<close>.
  \<open>now\<close> is the value \<open>Address._now()\<close> returns at the call.
\<close>

definition Address_add ::
  "(string \<Rightarrow> 32 word option) \<Rightarrow> int \<Rightarrow> address_book \<Rightarrow> string \<Rightarrow> py_error + address_book" where
  "Address_add pack now book address =
     (case pack address of
        None \<Rightarrow> Inl OSError
      | Some p \<Rightarrow>
          Inr (book \<lparr> entries :=
                 setitem address \<lparr> d_timeout = plus_num now (timeout book), d_packed = p \<rparr>
                   (entries book) \<rparr>))"

definition Address_init ::
  "(string \<Rightarrow> 32 word option) \<Rightarrow> int \<Rightarrow> string \<Rightarrow> py_num \<Rightarrow> py_error + address_book" where
  "Address_init pack now address t =
     (case Address_add pack now Address_class address of
        Inl e \<Rightarrow> Inl e
      | Inr book \<Rightarrow> Inr (book \<lparr> timeout := t \<rparr>))"

text \<open>\<open>Address.__iter__\<close>: the keys of a copy, without the sentinel when it is not alone.\<close>

definition Address_iter :: "address_book \<Rightarrow> string list" where
  "Address_iter book =
     (let copy = entries book in
        keys (if ANY \<in> set (keys copy) \<and> 1 < length copy then delitem ANY copy else copy))"

text \<open>
  \<open>min(iterable, key=..., default=...)\<close>: the first element whose key is least; a
  later element replaces the best one only when its key is strictly smaller.
\<close>

fun min_loop :: "('a \<Rightarrow> py_error + 32 word) \<Rightarrow> 'a list \<Rightarrow> 'a \<Rightarrow> 32 word \<Rightarrow> py_error + 'a" where
  "min_loop key [] best kbest = Inr best"
| "min_loop key (x # xs) best kbest =
     (case key x of
        Inl e \<Rightarrow> Inl e
      | Inr kx \<Rightarrow> if kx < kbest then min_loop key xs x kx else min_loop key xs best kbest)"

fun py_min :: "('a \<Rightarrow> py_error + 32 word) \<Rightarrow> 'a list \<Rightarrow> 'a \<Rightarrow> py_error + 'a" where
  "py_min key [] dflt = Inr dflt"
| "py_min key (x # xs) dflt =
     (case key x of Inl e \<Rightarrow> Inl e | Inr kx \<Rightarrow> min_loop key xs x kx)"

text \<open>\<open>Address.select\<close>. \<open>self[address]\<close> raises \<open>KeyError\<close> for a missing key.\<close>

definition select_key :: "address_book \<Rightarrow> 32 word \<Rightarrow> string \<Rightarrow> py_error + 32 word" where
  "select_key book packed address =
     (case map_of (entries book) address of
        None \<Rightarrow> Inl KeyError
      | Some v \<Rightarrow> Inr (d_packed v XOR packed))"

definition Address_select ::
  "(string \<Rightarrow> 32 word option) \<Rightarrow> address_book \<Rightarrow> string \<Rightarrow> py_error + string" where
  "Address_select pack book address =
     (case pack address of
        None \<Rightarrow> Inl OSError
      | Some packed \<Rightarrow> py_min (select_key book packed) (Address_iter book) ANY)"

text \<open>
  \<open>Address.update\<close>. The loop runs over the keys \<open>__iter__\<close> took from a copy and
  deletes from the dict itself. A key of the loop is still in the dict when its turn
  comes (only keys already visited have been deleted), so \<open>self[address]\<close> finds
  it; the model leaves the dict as it is where the lookup finds nothing.
\<close>

fun update_loop :: "int \<Rightarrow> string list \<Rightarrow> (string \<times> data) list \<Rightarrow> (string \<times> data) list" where
  "update_loop now [] d = d"
| "update_loop now (address # rest) d =
     update_loop now rest
       (case map_of d address of
          None \<Rightarrow> d
        | Some v \<Rightarrow> if gt_num now (d_timeout v) then delitem address d else d)"

definition Address_update :: "int \<Rightarrow> address_book \<Rightarrow> address_book" where
  "Address_update now book =
     book \<lparr> entries := update_loop now (Address_iter book) (entries book) \<rparr>"

text \<open>
  The packing of an address written as four decimal numbers of at most 255, the form
  in which the kernel reports a peer: the instance of \<open>pack\<close> in the scenarios.
\<close>

fun split_on :: "char \<Rightarrow> string \<Rightarrow> string list" where
  "split_on sep [] = [[]]"
| "split_on sep (c # cs) =
     (case split_on sep cs of
        [] \<Rightarrow> [[c]]
      | w # ws \<Rightarrow> if c = sep then [] # w # ws else (c # w) # ws)"

definition octet :: "string \<Rightarrow> int option" where
  "octet s = (if s \<noteq> [] \<and> list_all is_digit s \<and> length s \<le> 3 \<and> int_digits s \<le> 255
              then Some (int (int_digits s)) else None)"

definition pack_quad :: "string \<Rightarrow> 32 word option" where
  "pack_quad address =
     (case map octet (split_on CHR ''.'' address) of
        [Some a, Some b, Some c, Some d] \<Rightarrow>
          Some (word_of_int (((a * 256 + b) * 256 + c) * 256 + d))
      | _ \<Rightarrow> None)"

text \<open>
  What a dict must be for the functions above to be the source's: its keys are
  distinct, and every entry holds the packing of its own address, as \<open>add\<close> stores
  it. \<open>packed_of\<close> reads the packing of an address that has one.
\<close>

definition book_ok :: "(string \<Rightarrow> 32 word option) \<Rightarrow> address_book \<Rightarrow> bool" where
  "book_ok pack book =
     (distinct (keys (entries book))
      \<and> list_all (\<lambda>p. pack (fst p) = Some (d_packed (snd p))) (entries book))"

definition packed_of :: "(string \<Rightarrow> 32 word option) \<Rightarrow> string \<Rightarrow> 32 word" where
  "packed_of pack a = (case pack a of Some p \<Rightarrow> p | None \<Rightarrow> 0)"

section \<open>ssdp.py: the server and its handler\<close>

text \<open>
  \<open>Server._location\<close>, the result of \<open>urlsplit\<close>, by the parts the server reads:
  \<open>hostname\<close> and \<open>port\<close> (\<open>None\<close> when the URL has none) stand for the netloc they
  are parsed from.
\<close>

record location =
  l_scheme :: string
  l_hostname :: string
  l_port :: "nat option"
  l_path :: string
  l_query :: string
  l_fragment :: string

text \<open>
  \<open>Server._replace_location\<close>: the netloc becomes \<open>"{}:{}".format(address, port)\<close>
  and \<open>geturl\<close> puts the parts together as \<open>urlunsplit\<close> does for a netloc that is
  not empty.
\<close>

definition replace_location :: "location \<Rightarrow> string \<Rightarrow> string" where
  "replace_location loc address =
     (let netloc = address @ '':'' @ (case l_port loc of None \<Rightarrow> ''None'' | Some p \<Rightarrow> str_nat p);
          url = (if l_path loc \<noteq> [] \<and> take 1 (l_path loc) \<noteq> ''/''
                 then ''/'' @ l_path loc else l_path loc);
          url = ''//'' @ netloc @ url;
          url = (if l_scheme loc \<noteq> [] then l_scheme loc @ '':'' @ url else url);
          url = (if l_query loc \<noteq> [] then url @ ''?'' @ l_query loc else url)
      in if l_fragment loc \<noteq> [] then url @ ''#'' @ l_fragment loc else url)"

record ssdp_server =
  s_location :: location
  s_addresses :: address_book
  s_targets :: "(string \<times> string) list"
  s_timeout :: int

text \<open>
  \<open>Server.__init__\<close>. \<open>device\<close> is \<open>self.device\<close>, the text of a UUID the standard
  library computes; \<open>services\<close> lists \<open>services.union({"upnp:rootdevice"})\<close> in the
  order the set is iterated in.
\<close>

definition Server_init ::
  "(string \<Rightarrow> 32 word option) \<Rightarrow> int \<Rightarrow> string \<Rightarrow> location \<Rightarrow> string list \<Rightarrow> int
     \<Rightarrow> py_error + ssdp_server" where
  "Server_init pack now device loc services t =
     (case Address_init pack now (l_hostname loc) (Num t) of
        Inl e \<Rightarrow> Inl e
      | Inr book \<Rightarrow>
          Inr \<lparr> s_location = loc,
                s_addresses = book,
                s_targets = setitem device device
                              (map (\<lambda>service. (service, device @ ''::'' @ service)) services),
                s_timeout = t \<rparr>)"

definition location_for ::
  "(string \<Rightarrow> 32 word option) \<Rightarrow> ssdp_server \<Rightarrow> string \<Rightarrow> py_error + string" where
  "location_for pack srv address =
     (case Address_select pack (s_addresses srv) address of
        Inl e \<Rightarrow> Inl e
      | Inr a \<Rightarrow> Inr (replace_location (s_location srv) a))"

text \<open>
  \<open>Handler.do_notify\<close>: the headers of the datagram as a list of pairs,
  \<open>client\<close> its source address. A missing \<open>USN\<close> header reads as \<open>None\<close>, which is
  no value of the target map.
\<close>

definition do_notify ::
  "(string \<Rightarrow> 32 word option) \<Rightarrow> int \<Rightarrow> ssdp_server \<Rightarrow> string \<Rightarrow> (string \<times> string) list
     \<Rightarrow> py_error + ssdp_server" where
  "do_notify pack now srv client headers =
     (case map_of headers ''USN'' of
        None \<Rightarrow> Inr srv
      | Some usn \<Rightarrow>
          if usn \<in> set (map snd (s_targets srv))
          then (case Address_add pack now (s_addresses srv) client of
                  Inl e \<Rightarrow> Inl e
                | Inr book \<Rightarrow> Inr (srv \<lparr> s_addresses := book \<rparr>))
          else Inr srv)"

text \<open>
  \<open>Handler.do_m_search\<close>: the replies it sends. The source reads the \<open>ST\<close> header
  and does nothing with it; the calls of \<open>send_discover\<close> are commented out.
\<close>

definition do_m_search :: "ssdp_server \<Rightarrow> string \<Rightarrow> (string \<times> string) list \<Rightarrow> reply list" where
  "do_m_search srv client headers = (let target = map_of headers ''ST'' in [])"

text \<open>\<open>Handler.send_discover\<close>, which no handler calls.\<close>

definition send_discover ::
  "(string \<Rightarrow> 32 word option) \<Rightarrow> ssdp_server \<Rightarrow> string \<Rightarrow> string \<Rightarrow> py_error + reply" where
  "send_discover pack srv client target =
     (case location_for pack srv client of
        Inl e \<Rightarrow> Inl e
      | Inr loc \<Rightarrow>
          (case map_of (s_targets srv) target of
             None \<Rightarrow> Inl KeyError
           | Some usn \<Rightarrow>
               Inr (Reply 200
                      [(''EXT'', ''''), (''ST'', target), (''Location'', loc), (''USN'', usn),
                       (''Cache-Control'', ''max-age='' @ str_int (s_timeout srv))]
                      [])))"

section \<open>ssdp.py: the notifier\<close>

definition ALIVE :: string where
  "ALIVE = ''ssdp:alive''"

definition BYE :: string where
  "BYE = ''ssdp:byebye''"

text \<open>A NOTIFY datagram: the address it is sent from and its headers.\<close>

record notify =
  n_source :: string
  n_headers :: "(string \<times> string) list"

text \<open>
  \<open>C.send_notify\<close>. Its caller takes \<open>target\<close> from the keys of the target map;
  the pair holds that key and \<open>targets[target]\<close>.
\<close>

definition send_notify :: "ssdp_server \<Rightarrow> string \<times> string \<Rightarrow> string \<Rightarrow> string \<Rightarrow> notify" where
  "send_notify srv target type address =
     \<lparr> n_source = address,
       n_headers =
         [(''HOST'', ''239.255.255.250:1900''),
          (''SERVER'', ''Ubuntu DLNADOC/1.50 UPnP/1.0 MiniDLNA/1.2.1''),
          (''NT'', fst target), (''NTS'', type), (''USN'', snd target)]
         @ (if type = ALIVE \<and> address \<noteq> ANY
            then [(''CACHE-CONTROL'', ''max-age='' @ str_int (s_timeout srv)),
                  (''LOCATION'', replace_location (s_location srv) address)]
            else []) \<rparr>"

text \<open>
  \<open>C.send_notifies\<close>, with \<open>now\<close> the clock \<open>update\<close> reads: the server with its
  book aged, and the datagrams of the burst in the order they are sent.
\<close>

definition send_notifies :: "ssdp_server \<Rightarrow> string \<Rightarrow> int \<Rightarrow> ssdp_server \<times> notify list" where
  "send_notifies srv type now =
     (let srv1 = srv \<lparr> s_addresses := Address_update now (s_addresses srv) \<rparr>;
          once = concat (map (\<lambda>address.
                               map (\<lambda>target. send_notify srv1 target type address)
                                 (s_targets srv1))
                          (Address_iter (s_addresses srv1)))
      in (srv1, once @ once))"

text \<open>
  \<open>C.serve_forever\<close>. The loop runs until the shutdown event is set, which may be
  never, so the model takes the iterations that are observed: for each, the clock at
  its burst and whether the wait that follows it reports the shutdown. It returns
  the bursts sent, and whether the loop was left and the method returned; \<open>False\<close>
  says that the notifier is still in its loop when the observation ends.
\<close>

fun alive_loop ::
  "ssdp_server \<Rightarrow> (int \<times> bool) list \<Rightarrow> ssdp_server \<times> notify list list \<times> bool" where
  "alive_loop srv [] = (srv, [], False)"
| "alive_loop srv ((now, shutdown) # rest) =
     (let (srv1, burst) = send_notifies srv ALIVE now in
        if shutdown then (srv1, [burst], True)
        else (let (srv2, bursts, stopped) = alive_loop srv1 rest
              in (srv2, burst # bursts, stopped)))"

definition serve_forever ::
  "ssdp_server \<Rightarrow> int \<Rightarrow> (int \<times> bool) list \<Rightarrow> int \<Rightarrow> notify list list \<times> bool" where
  "serve_forever srv now0 iterations now_end =
     (let (srv1, first) = send_notifies srv BYE now0;
          (srv2, alive, stopped) = alive_loop srv1 iterations
      in if stopped
         then (let (srv3, final) = send_notifies srv2 BYE now_end
               in (first # alive @ [final], True))
         else (first # alive, False))"

text \<open>Every datagram of a burst carries the given \<open>NTS\<close> header.\<close>

definition burst_nts :: "string \<Rightarrow> notify list \<Rightarrow> bool" where
  "burst_nts type burst = list_all (\<lambda>m. map_of (n_headers m) ''NTS'' = Some type) burst"

text \<open>
  The server of the scenarios: bound to all interfaces on port 8200, it has learned
  the addresses 192.168.1.10 and 10.0.0.5 from its own NOTIFYs.
\<close>

definition scenario_location :: location where
  "scenario_location =
     \<lparr> l_scheme = ''http'', l_hostname = ''0.0.0.0'', l_port = Some 8200,
       l_path = ''/device-description.xml'', l_query = [], l_fragment = [] \<rparr>"

definition scenario_device :: string where
  "scenario_device = ''uuid:2f1c9a6e-8d3b-5a47-9e10-6b7c8d9e0f11''"

definition scenario_services :: "string list" where
  "scenario_services =
     [''upnp:rootdevice'',
      ''urn:schemas-upnp-org:device:MediaServer:1'',
      ''urn:schemas-upnp-org:service:ContentDirectory:1'',
      ''urn:schemas-upnp-org:service:ConnectionManager:1'']"

definition scenario_server :: ssdp_server where
  "scenario_server =
     \<lparr> s_location = scenario_location,
       s_addresses =
         \<lparr> entries =
             [(''0.0.0.0'', \<lparr> d_timeout = PlusInf, d_packed = 0 \<rparr>),
              (''192.168.1.10'', \<lparr> d_timeout = Num 130, d_packed = 3232235786 \<rparr>),
              (''10.0.0.5'', \<lparr> d_timeout = Num 131, d_packed = 167772165 \<rparr>)],
           timeout = Num 30 \<rparr>,
       s_targets =
         map (\<lambda>service. (service, scenario_device @ ''::'' @ service)) scenario_services
         @ [(scenario_device, scenario_device)],
       s_timeout = 30 \<rparr>"

text \<open>A server with one target and one address, for a short run of the notifier.\<close>

definition small_server :: ssdp_server where
  "small_server =
     \<lparr> s_location = scenario_location,
       s_addresses =
         \<lparr> entries = [(''192.168.1.10'', \<lparr> d_timeout = PlusInf, d_packed = 3232235786 \<rparr>)],
           timeout = Num 30 \<rparr>,
       s_targets = [(''upnp:rootdevice'', scenario_device @ ''::upnp:rootdevice'')],
       s_timeout = 30 \<rparr>"

section \<open>pathlib: pure POSIX paths\<close>

text \<open>
  A \<open>PurePosixPath\<close> by what it is parsed to: its root (empty, \<open>/\<close> or \<open>//\<close>) and
  its parts after the root. The library keeps no empty part, no part \<open>.\<close> and no
  separator inside a part; two paths are equal when root and parts are.
\<close>

record path =
  p_root :: string
  p_parts :: "string list"

definition wf_part :: "string \<Rightarrow> bool" where
  "wf_part x = (x \<noteq> [] \<and> x \<noteq> ''.'' \<and> CHR ''/'' \<notin> set x)"

definition wf_path :: "path \<Rightarrow> bool" where
  "wf_path p = (p_root p \<in> set [[], ''/'', ''//''] \<and> list_all wf_part (p_parts p))"

text \<open>\<open>sep.join(parts)\<close>; \<open>split_on\<close> above is \<open>str.split(sep)\<close>.\<close>

fun join_sep :: "string \<Rightarrow> string list \<Rightarrow> string" where
  "join_sep sep [] = []"
| "join_sep sep [x] = x"
| "join_sep sep (x # y # ys) = x @ sep @ join_sep sep (y # ys)"

text \<open>
  The POSIX flavour's \<open>splitroot\<close> and the parsing of one string: exactly two
  leading slashes make the root \<open>//\<close>, any other number \<open>/\<close>.
\<close>

definition splitroot :: "string \<Rightarrow> string \<times> string" where
  "splitroot part =
     (if take 1 part = ''/''
      then (let stripped = dropWhile (\<lambda>c. c = CHR ''/'') part
            in (if length part - length stripped = 2 then ''//'' else ''/'', stripped))
      else ([], part))"

definition parse_path :: "string \<Rightarrow> path" where
  "parse_path s =
     (let (root, rel) = splitroot s
      in \<lparr> p_root = root,
           p_parts = filter (\<lambda>x. x \<noteq> [] \<and> x \<noteq> ''.'') (split_on CHR ''/'' rel) \<rparr>)"

text \<open>
  \<open>cls(a, b)\<close> and \<open>a / b\<close> for two paths: a second argument with a root replaces
  the first.
\<close>

definition joinpath :: "path \<Rightarrow> path \<Rightarrow> path" where
  "joinpath a b =
     (if p_root b \<noteq> [] then b
      else \<lparr> p_root = p_root a, p_parts = p_parts a @ p_parts b \<rparr>)"

text \<open>\<open>str(path)\<close>.\<close>

definition path_str :: "path \<Rightarrow> string" where
  "path_str p =
     (let s = p_root p @ join_sep ''/'' (p_parts p) in if s = [] then ''.'' else s)"

text \<open>
  \<open>path.relative_to(other)\<close>: \<open>other\<close> must have the root of \<open>path\<close> and its parts
  must begin the parts of \<open>path\<close>; the result has no root.
\<close>

definition relative_to :: "path \<Rightarrow> path \<Rightarrow> py_error + path" where
  "relative_to p other =
     (if p_root p = p_root other
         \<and> take (length (p_parts other)) (p_parts p) = p_parts other
      then Inr \<lparr> p_root = [], p_parts = drop (length (p_parts other)) (p_parts p) \<rparr>
      else Inl ValueError)"

text \<open>\<open>path.parent\<close> and \<open>path.name\<close>.\<close>

definition parent :: "path \<Rightarrow> path" where
  "parent p = p \<lparr> p_parts := butlast (p_parts p) \<rparr>"

definition name :: "path \<Rightarrow> string" where
  "name p = (if p_parts p = [] then [] else last (p_parts p))"

section \<open>didl.py: object IDs\<close>

text \<open>The class \<open>IdPath\<close>: \<open>from_id\<close>, \<open>as_id\<close>, \<open>from_path\<close> and \<open>as_path\<close>.\<close>

definition from_id :: "string \<Rightarrow> path" where
  "from_id ident = (if ident = ''0'' then parse_path ''/'' else parse_path ident)"

definition as_id :: "path \<Rightarrow> string" where
  "as_id p = (if p = parse_path ''/'' then ''0'' else path_str p)"

definition from_path :: "path \<Rightarrow> path \<Rightarrow> py_error + path" where
  "from_path root p =
     (case relative_to p root of
        Inl e \<Rightarrow> Inl e
      | Inr rel \<Rightarrow> Inr (joinpath (parse_path ''/'') rel))"

definition as_path :: "path \<Rightarrow> path \<Rightarrow> py_error + path" where
  "as_path idp root =
     (case relative_to idp (parse_path ''/'') of
        Inl e \<Rightarrow> Inl e
      | Inr rel \<Rightarrow> Inr (joinpath root rel))"

text \<open>
  The round trip of claim C3: the ID of a path under the root, and the path that ID
  names.
\<close>

definition id_of_path :: "path \<Rightarrow> path \<Rightarrow> py_error + string" where
  "id_of_path root p =
     (case from_path root p of Inl e \<Rightarrow> Inl e | Inr idp \<Rightarrow> Inr (as_id idp))"

definition path_of_id :: "path \<Rightarrow> string \<Rightarrow> py_error + path" where
  "path_of_id root ident = as_path (from_id ident) root"

text \<open>The media root of the scenarios.\<close>

definition media_root :: path where
  "media_root = \<lparr> p_root = ''/'', p_parts = [''srv'', ''media''] \<rparr>"

section \<open>The file system under the media root\<close>

text \<open>
  Files and directories as a tree: a file with the MIME string libmagic reports for
  it and its modification time, a directory with its modification time and its
  entries in the order the operating system lists them. A path is looked up from the
  top of the tree, which stands for the directory its root (or, for a path with no
  root, the working directory) names; \<open>..\<close> steps back to the directory above and
  stays at the top, and symbolic links are not modelled.
\<close>

datatype node = File string int | Dir int "(string \<times> node) list"

fun walk :: "node list \<Rightarrow> node \<Rightarrow> string list \<Rightarrow> node option" where
  "walk up cur [] = Some cur"
| "walk up (File m t) (x # xs) = None"
| "walk up (Dir t es) (x # xs) =
     (if x = ''..''
      then (case up of [] \<Rightarrow> walk [] (Dir t es) xs | d # ds \<Rightarrow> walk ds d xs)
      else (case map_of es x of
              None \<Rightarrow> None
            | Some sub \<Rightarrow> walk (Dir t es # up) sub xs))"

definition lookup :: "node \<Rightarrow> path \<Rightarrow> node option" where
  "lookup fs p = walk [] fs (p_parts p)"

definition is_dir :: "node \<Rightarrow> path \<Rightarrow> bool" where
  "is_dir fs p = (case lookup fs p of Some (Dir t es) \<Rightarrow> True | _ \<Rightarrow> False)"

text \<open>\<open>path / name\<close> for the name of a directory entry.\<close>

definition child :: "path \<Rightarrow> string \<Rightarrow> path" where
  "child p x = p \<lparr> p_parts := p_parts p @ [x] \<rparr>"

text \<open>
  \<open>path.glob("*")\<close>: the entries of the directory, none for anything else.
  \<open>path.rglob("*")\<close>: the entries of the directory and of every directory below it,
  each directory's entries together, a directory before the directories in it.
\<close>

definition glob :: "node \<Rightarrow> path \<Rightarrow> path list" where
  "glob fs p =
     (case lookup fs p of
        Some (Dir t es) \<Rightarrow> map (\<lambda>e. child p (fst e)) es
      | _ \<Rightarrow> [])"

fun below :: "path \<Rightarrow> node \<Rightarrow> path list" where
  "below p (File m t) = []"
| "below p (Dir t es) =
     map (\<lambda>e. child p (fst e)) es
     @ concat (map (\<lambda>e. below (child p (fst e)) (snd e)) es)"

definition rglob :: "node \<Rightarrow> path \<Rightarrow> path list" where
  "rglob fs p = (case lookup fs p of Some n \<Rightarrow> below p n | None \<Rightarrow> [])"

text \<open>
  \<open>magic.detect_from_filename(path).mime_type\<close>; the binding raises for a path it
  cannot open.
\<close>

definition mime :: "node \<Rightarrow> path \<Rightarrow> py_error + string" where
  "mime fs p =
     (case lookup fs p of
        Some (File m t) \<Rightarrow> Inr m
      | Some (Dir t es) \<Rightarrow> Inr ''inode/directory''
      | None \<Rightarrow> Inl ValueError)"

text \<open>\<open>int(path.stat().st_mtime)\<close>.\<close>

definition st_mtime :: "node \<Rightarrow> path \<Rightarrow> py_error + int" where
  "st_mtime fs p =
     (case lookup fs p of
        Some (File m t) \<Rightarrow> Inr t
      | Some (Dir t es) \<Rightarrow> Inr t
      | None \<Rightarrow> Inl OSError)"

section \<open>didl.py: objects\<close>

text \<open>Running one step after another, the first exception ending the run.\<close>

fun and_then :: "py_error + 'a \<Rightarrow> ('a \<Rightarrow> py_error + 'b) \<Rightarrow> py_error + 'b" where
  "and_then (Inl e) f = Inl e"
| "and_then (Inr x) f = f x"

fun for_each :: "('a \<Rightarrow> py_error + 'b) \<Rightarrow> 'a list \<Rightarrow> py_error + 'b list" where
  "for_each f [] = Inr []"
| "for_each f (x # xs) =
     and_then (f x) (\<lambda>y. and_then (for_each f xs) (\<lambda>ys. Inr (y # ys)))"

record object =
  o_root :: path
  o_url :: string
  o_id_path :: path
  o_command :: string

definition Object_init :: "path \<Rightarrow> string \<Rightarrow> string \<Rightarrow> string \<Rightarrow> object" where
  "Object_init root url ident command =
     \<lparr> o_root = root, o_url = url, o_id_path = from_id ident, o_command = command \<rparr>"

definition object_path :: "object \<Rightarrow> py_error + path" where
  "object_path obj = as_path (o_id_path obj) (o_root obj)"

definition object_mime :: "node \<Rightarrow> object \<Rightarrow> py_error + string" where
  "object_mime fs obj = and_then (object_path obj) (mime fs)"

text \<open>\<open>Object.mime_type\<close>: \<open>self.mime.split("/")[0]\<close>.\<close>

definition mime_type :: "node \<Rightarrow> object \<Rightarrow> py_error + string" where
  "mime_type fs obj =
     and_then (object_mime fs obj) (\<lambda>m. Inr (takeWhile (\<lambda>c. c \<noteq> CHR ''/'') m))"

text \<open>The condition under which \<open>Object.__iter__\<close> yields an element.\<close>

definition yields :: "node \<Rightarrow> object \<Rightarrow> py_error + bool" where
  "yields fs element =
     and_then (object_path element)
       (\<lambda>p. if is_dir fs p then Inr True
            else and_then (mime_type fs element)
                   (\<lambda>t. Inr (t \<in> set [''image'', ''audio'', ''video''])))"

text \<open>
  \<open>Object.__iter__\<close> is a generator: the elements it yields, and the exception that
  ends it if one does.
\<close>

fun iter_loop :: "node \<Rightarrow> object \<Rightarrow> path list \<Rightarrow> object list \<times> py_error option" where
  "iter_loop fs obj [] = ([], None)"
| "iter_loop fs obj (p # rest) =
     (case from_path (o_root obj) p of
        Inl e \<Rightarrow> ([], Some e)
      | Inr idp \<Rightarrow>
          (let element = Object_init (o_root obj) (o_url obj) (as_id idp) ''browse'' in
             case yields fs element of
               Inl e \<Rightarrow> ([], Some e)
             | Inr keep \<Rightarrow>
                 (let (elements, raised) = iter_loop fs obj rest
                  in (if keep then element # elements else elements, raised))))"

definition object_iter :: "node \<Rightarrow> object \<Rightarrow> object list \<times> py_error option" where
  "object_iter fs obj =
     (if o_command obj = ''browse''
      then (case object_path obj of
              Inl e \<Rightarrow> ([], Some e)
            | Inr p \<Rightarrow> iter_loop fs obj (glob fs p))
      else if o_command obj = ''search''
      then (case object_path obj of
              Inl e \<Rightarrow> ([], Some e)
            | Inr p \<Rightarrow> iter_loop fs obj (rglob fs p))
      else ([], None))"

text \<open>\<open>Object.children\<close>: \<open>list(iter(self))\<close>.\<close>

definition children :: "node \<Rightarrow> object \<Rightarrow> py_error + object list" where
  "children fs obj =
     (case object_iter fs obj of
        (elements, None) \<Rightarrow> Inr elements
      | (elements, Some e) \<Rightarrow> Inl e)"

text \<open>\<open>Object.update\<close>, with \<open>now\<close> the clock in whole seconds.\<close>

definition object_update :: "node \<Rightarrow> int \<Rightarrow> object \<Rightarrow> py_error + int" where
  "object_update fs now obj =
     and_then (object_path obj)
       (\<lambda>p. if p = o_root obj then Inr now else st_mtime fs p)"

section \<open>xml\_.py: elements\<close>

text \<open>An \<open>Element\<close>: tag, attributes, text and children.\<close>

datatype xml = Element string "(string \<times> string) list" string "xml list"

definition namespaces :: "(string \<times> string) list" where
  "namespaces =
     [(''soap'', ''http://schemas.xmlsoap.org/soap/envelope/''),
      (''dc'', ''http://purl.org/dc/elements/1.1/''),
      (''upnp'', ''urn:schemas-upnp-org:metadata-1-0/upnp/''),
      (''dlna'', ''urn:schemas-upnp-org:metadata-1-0/DIDL-Lite/''),
      (''dev'', ''urn:schemas-upnp-org:device-1-0''),
      (''ctrl'', ''urn:schemas-upnp-org:control-1-0''),
      (''srv'', ''urn:schemas-upnp-org:service-1-0''),
      (''cd'', ''urn:schemas-upnp-org:service:ContentDirectory:1'')]"

text \<open>
  \<open>element(qname, *args, **kwds)\<close>: an argument is an element, which is appended, or
  anything else, whose \<open>str\<close> becomes the text.
\<close>

datatype xel_arg = Child xml | Content string

fun arg_children :: "xel_arg list \<Rightarrow> xml list" where
  "arg_children [] = []"
| "arg_children (Child e # args) = e # arg_children args"
| "arg_children (Content s # args) = arg_children args"

fun arg_text :: "string \<Rightarrow> xel_arg list \<Rightarrow> string" where
  "arg_text t [] = t"
| "arg_text t (Child e # args) = arg_text t args"
| "arg_text t (Content s # args) = arg_text s args"

definition xel :: "string \<Rightarrow> xel_arg list \<Rightarrow> (string \<times> string) list \<Rightarrow> py_error + xml" where
  "xel qn args kwds =
     (case split_on CHR '':'' qn of
        [ns, local] \<Rightarrow>
          (case map_of namespaces ns of
             None \<Rightarrow> Inl KeyError
           | Some uri \<Rightarrow>
               Inr (Element (''{'' @ uri @ ''}'' @ local)
                      (map (\<lambda>kv. (''{'' @ uri @ ''}'' @ fst kv, snd kv)) kwds)
                      (arg_text [] args)
                      (arg_children args)))
      | _ \<Rightarrow> Inl ValueError)"

definition append_child :: "xml \<Rightarrow> xml \<Rightarrow> xml" where
  "append_child e c = (case e of Element tag attrs t cs \<Rightarrow> Element tag attrs t (cs @ [c]))"

definition element_children :: "xml \<Rightarrow> xml list" where
  "element_children e = (case e of Element tag attrs t cs \<Rightarrow> cs)"

text \<open>
  \<open>find_text(element, qname)\<close>. A parsed document is read only through it, so the
  model keeps of a document the local name and the text of its descendants, in
  document order; an element with no text has the empty text.
\<close>

definition find_text :: "(string \<times> string) list \<Rightarrow> string \<Rightarrow> py_error + string" where
  "find_text doc qn = (case map_of doc qn of None \<Rightarrow> Inl AttributeError | Some t \<Rightarrow> Inr t)"

text \<open>
  \<open>Object.element\<close>. \<open>as_uri\<close> stands for \<open>UrlPath.as_uri\<close>, whose quoting is the
  standard library's.
\<close>

definition object_element ::
  "(path \<Rightarrow> string \<Rightarrow> string) \<Rightarrow> node \<Rightarrow> object \<Rightarrow> py_error + xml" where
  "object_element as_uri fs obj =
     and_then (object_path obj) (\<lambda>p.
     and_then (if is_dir fs p then Inr ''object.container''
               else and_then (mime_type fs obj) (\<lambda>t. Inr (''object.item.'' @ t @ ''Item'')))
       (\<lambda>uclass.
     and_then (xel ''upnp:class'' [Content uclass] []) (\<lambda>c1.
     and_then (xel ''dc:title'' [Content (name p)] []) (\<lambda>c2.
     and_then (xel (if is_dir fs p then ''dlna:container'' else ''dlna:item'')
                 [Child c1, Child c2]
                 [(''id'', as_id (o_id_path obj)),
                  (''parentID'', as_id (parent (o_id_path obj)))]) (\<lambda>root.
     if is_dir fs p then Inr root
     else and_then (object_mime fs obj) (\<lambda>m.
          and_then (xel ''dlna:res'' [Content (as_uri (o_id_path obj) (o_url obj))]
                      [(''protocolInfo'', ''http-get:*:'' @ m @ '':DLNA.ORG_OP=01'')])
            (\<lambda>res. Inr (append_child root res))))))))"

section \<open>Decimal strings\<close>

lemma digit_char_simps:
  "digit_char 0 = CHR ''0''" "digit_char 1 = CHR ''1''" "digit_char 2 = CHR ''2''"
  "digit_char 3 = CHR ''3''" "digit_char 4 = CHR ''4''" "digit_char 5 = CHR ''5''"
  "digit_char 6 = CHR ''6''" "digit_char 7 = CHR ''7''" "digit_char 8 = CHR ''8''"
  "digit_char 9 = CHR ''9''" "digit_char (Suc 0) = CHR ''1''"
  by (simp_all add: digit_char_def)

lemma below_ten_cases:
  "d < 10 \<Longrightarrow> d \<in> {0, 1, 2, 3, 4, 5, 6, 7, 8, 9::nat}"
  by auto

lemma digit_val_digit_char: "d < 10 \<Longrightarrow> digit_val (digit_char d) = d"
  by (drule below_ten_cases) (auto simp: digit_val_def digit_char_simps)

lemma is_digit_digit_char: "d < 10 \<Longrightarrow> is_digit (digit_char d)"
  by (drule below_ten_cases) (auto simp: is_digit_def digit_char_simps)

text \<open>Rewrite rules that evaluate \<open>str_int\<close> at a numeral.\<close>

lemmas str_eval = str_int_def str_nat.simps digit_char_simps

lemma str_nat_digits: "list_all is_digit (str_nat n)"
proof (induction n rule: str_nat.induct)
  case (1 n)
  show ?case
  proof (cases "n < 10")
    case True
    then show ?thesis
      by (subst str_nat.simps) (simp add: is_digit_digit_char)
  next
    case False
    with 1 show ?thesis
      by (subst str_nat.simps) (simp add: is_digit_digit_char)
  qed
qed

lemma str_nat_not_Nil: "str_nat n \<noteq> []"
  by (subst str_nat.simps) simp

lemma int_digits_snoc: "int_digits (s @ [c]) = 10 * int_digits s + digit_val c"
  by (simp add: int_digits_def)

lemma int_digits_str_nat: "int_digits (str_nat n) = n"
proof (induction n rule: str_nat.induct)
  case (1 n)
  show ?case
  proof (cases "n < 10")
    case True
    then show ?thesis
      by (subst str_nat.simps) (simp add: int_digits_def digit_val_digit_char)
  next
    case False
    with 1 have "int_digits (str_nat (n div 10)) = n div 10"
      by simp
    with False show ?thesis
      by (subst str_nat.simps) (simp add: int_digits_snoc digit_val_digit_char)
  qed
qed

section \<open>Byte ranges: what a media GET is answered with\<close>

lemma takeWhile_digits_dash:
  "list_all is_digit ds \<Longrightarrow> takeWhile is_digit (ds @ CHR ''-'' # rest) = ds"
  by (induction ds) (auto simp: is_digit_def)

lemma dropWhile_digits_dash:
  "list_all is_digit ds \<Longrightarrow> dropWhile is_digit (ds @ CHR ''-'' # rest) = CHR ''-'' # rest"
  by (induction ds) (auto simp: is_digit_def)

lemma parse_range_canonical:
  "parse_range (''bytes='' @ str_nat a @ ''-'' @ str_nat b) = Some (str_nat a, Some (str_nat b))"
  by (simp add: parse_range_def takeWhile_digits_dash dropWhile_digits_dash str_nat_digits
      str_nat_not_Nil Let_def)

lemma Range_init_canonical:
  "Range_init S (''bytes='' @ str_nat a @ ''-'' @ str_nat b) =
     \<lparr> r_partial = True, r_size = S, r_start = int a, r_end = int b \<rparr>"
  unfolding Range_init_def parse_range_canonical
  by (simp add: str_nat_not_Nil int_digits_str_nat)

lemma Range_init_malformed:
  "parse_range h = None \<Longrightarrow>
   Range_init S h = \<lparr> r_partial = False, r_size = S, r_start = 0, r_end = S - 1 \<rparr>"
  by (simp add: Range_init_def)

lemma parse_range_Nil: "parse_range [] = None"
  by (simp add: parse_range_def)

lemma send_file_partial:
  assumes "0 \<le> a" "a \<le> b" "b - a + 1 \<le> sys_maxsize"
  shows "send_file f (Some \<lparr> r_partial = True, r_size = S, r_start = a, r_end = b \<rparr>) =
     Inr (Reply 206
            [(''Content-Type'', f_mime f),
             (''Content-Length'', str_int (b - a + 1)),
             (''Content-Range'',
              ''bytes '' @ str_int a @ ''-'' @ str_int b @ ''/'' @ str_int S)]
            (take (nat (b - a + 1)) (drop (nat a) (f_data f))))"
  using assms
  by (simp add: send_file_def range_len_def range_str_def send_response_content_def
      copyfile_def py_len_def Let_def)

lemma send_file_full:
  assumes "1 \<le> st_size f" "st_size f \<le> sys_maxsize"
  shows "send_file f (Some \<lparr> r_partial = False, r_size = st_size f, r_start = 0,
                             r_end = st_size f - 1 \<rparr>) =
     Inr (Reply 200
            [(''Content-Type'', f_mime f), (''Content-Length'', str_int (st_size f))]
            (f_data f))"
  using assms
  by (auto simp add: send_file_def range_len_def send_response_content_def
      copyfile_def py_len_def Let_def st_size_def)

lemma do_get_media_range:
  assumes "0 \<le> a" "a \<le> b" "b < st_size f" "st_size f \<le> sys_maxsize"
  shows "do_get_media (Some f) (Some (''bytes='' @ str_int a @ ''-'' @ str_int b)) =
     Inr (Reply 206
            [(''Content-Type'', f_mime f),
             (''Content-Length'', str_int (b - a + 1)),
             (''Content-Range'',
              ''bytes '' @ str_int a @ ''-'' @ str_int b @ ''/'' @ str_int (st_size f))]
            (take (nat (b - a + 1)) (drop (nat a) (f_data f))))"
proof -
  from assms have sa: "str_int a = str_nat (nat a)" and sb: "str_int b = str_nat (nat b)"
    by (simp_all add: str_int_def)
  have r: "Range_init (st_size f) (''bytes='' @ str_int a @ ''-'' @ str_int b) =
      \<lparr> r_partial = True, r_size = st_size f, r_start = a, r_end = b \<rparr>"
    unfolding sa sb Range_init_canonical using assms by simp
  from assms have "b - a + 1 \<le> sys_maxsize" by simp
  from send_file_partial [OF assms(1,2) this, of f "st_size f"] show ?thesis
    by (simp only: do_get_media_def option.case r)
qed

lemma do_get_media_malformed:
  assumes "parse_range h = None" "1 \<le> st_size f" "st_size f \<le> sys_maxsize"
  shows "do_get_media (Some f) (Some h) =
     Inr (Reply 200
            [(''Content-Type'', f_mime f), (''Content-Length'', str_int (st_size f))]
            (f_data f))"
  using send_file_full [OF assms(2,3)]
  by (simp only: do_get_media_def option.case Range_init_malformed [OF assms(1)])

lemma do_get_media_no_header:
  assumes "1 \<le> st_size f" "st_size f \<le> sys_maxsize"
  shows "do_get_media (Some f) None =
     Inr (Reply 200
            [(''Content-Type'', f_mime f), (''Content-Length'', str_int (st_size f))]
            (f_data f))"
  using send_file_full [OF assms]
  by (simp only: do_get_media_def option.case Range_init_malformed [OF parse_range_Nil])

text \<open>
  Claim C1, as the code has it. For a file of \<open>S\<close> bytes (\<open>S\<close> a file size, so at most
  \<open>sys.maxsize\<close>) a GET with \<open>Range: bytes=a-b\<close>, \<open>0 \<le> a \<le> b < S\<close>, is answered 206
  with \<open>Content-Range: bytes a-b/S\<close>, \<open>Content-Length\<close> \<open>b-a+1\<close> and the bytes \<open>a..b\<close>
  of the file. When the file is not empty, a GET with no \<open>Range\<close> header, or with one
  the pattern does not match, is answered 200 with \<open>Content-Length\<close> \<open>S\<close> and the
  whole file.
\<close>

theorem media_get_range_arithmetic:
  "(0 \<le> a \<and> a \<le> b \<and> b < st_size f \<and> st_size f \<le> sys_maxsize \<longrightarrow>
      do_get_media (Some f) (Some (''bytes='' @ str_int a @ ''-'' @ str_int b)) =
        Inr (Reply 206
               [(''Content-Type'', f_mime f),
                (''Content-Length'', str_int (b - a + 1)),
                (''Content-Range'',
                 ''bytes '' @ str_int a @ ''-'' @ str_int b @ ''/'' @ str_int (st_size f))]
               (take (nat (b - a + 1)) (drop (nat a) (f_data f)))))
   \<and> (1 \<le> st_size f \<and> st_size f \<le> sys_maxsize \<longrightarrow>
        do_get_media (Some f) None =
          Inr (Reply 200
                 [(''Content-Type'', f_mime f), (''Content-Length'', str_int (st_size f))]
                 (f_data f))
        \<and> (parse_range h = None \<longrightarrow>
             do_get_media (Some f) (Some h) =
               Inr (Reply 200
                      [(''Content-Type'', f_mime f),
                       (''Content-Length'', str_int (st_size f))]
                      (f_data f))))"
  using do_get_media_range [of a b f] do_get_media_no_header [of f]
    do_get_media_malformed [of h f]
  by blast

theorem media_get_range_arithmetic_witness:
  "do_get_media (Some \<lparr> f_mime = ''video/mp4'', f_data = ''0123456789abcdefghijklmnopqrstuvwxyz'' \<rparr>)
       (Some ''bytes=10-19'') =
     Inr (Reply 206
            [(''Content-Type'', ''video/mp4''), (''Content-Length'', ''10''),
             (''Content-Range'', ''bytes 10-19/36'')]
            ''abcdefghij'')
   \<and> do_get_media (Some \<lparr> f_mime = ''video/mp4'', f_data = ''0123456789abcdefghijklmnopqrstuvwxyz'' \<rparr>)
       None =
     Inr (Reply 200
            [(''Content-Type'', ''video/mp4''), (''Content-Length'', ''36'')]
            ''0123456789abcdefghijklmnopqrstuvwxyz'')
   \<and> do_get_media (Some \<lparr> f_mime = ''video/mp4'', f_data = ''0123456789abcdefghijklmnopqrstuvwxyz'' \<rparr>)
       (Some ''bytes=-5'') =
     Inr (Reply 200
            [(''Content-Type'', ''video/mp4''), (''Content-Length'', ''36'')]
            ''0123456789abcdefghijklmnopqrstuvwxyz'')"
proof -
  let ?f = "\<lparr> f_mime = ''video/mp4'', f_data = ''0123456789abcdefghijklmnopqrstuvwxyz'' \<rparr>"
  have sz: "st_size ?f = 36"
    by (simp add: st_size_def)
  have s: "str_int 10 = ''10''" "str_int 19 = ''19''" "str_int 36 = ''36''"
    by (simp_all add: str_eval)
  have p: "parse_range ''bytes=-5'' = None"
    by (simp add: parse_range_def is_digit_def)
  from media_get_range_arithmetic [of 10 19 ?f "''bytes=-5''"] sz s p show ?thesis
    by (simp add: sys_maxsize_def)
qed

text \<open>
  The claim as the spec words it also covers the empty file, where it fails: without
  a \<open>Range\<close> header the length of the range is 0 and the reply is 416.
\<close>

theorem media_get_empty_file_416:
  "do_get_media (Some \<lparr> f_mime = ''video/mp4'', f_data = [] \<rparr>) None = Inr (Send_error 416)"
  by (simp add: do_get_media_def st_size_def Range_init_def parse_range_def send_file_def
      range_len_def py_len_def sys_maxsize_def Let_def)

text \<open>
  Claim C2 fails on the code. \<open>Range.end\<close> is taken from the header as it is and
  never compared with the size of the file, so for a file of 1000 bytes
  \<open>Range: bytes=2000-3000\<close> has length 1001: the reply is 206 with no body, not 416.
\<close>

theorem media_get_beyond_eof_is_206:
  "do_get_media (Some \<lparr> f_mime = ''video/mp4'', f_data = replicate 1000 (CHR ''x'') \<rparr>)
       (Some ''bytes=2000-3000'') =
     Inr (Reply 206
            [(''Content-Type'', ''video/mp4''), (''Content-Length'', ''1001''),
             (''Content-Range'', ''bytes 2000-3000/1000'')]
            [])"
  by (simp add: do_get_media_def st_size_def Range_init_def parse_range_def is_digit_def
      int_digits_def digit_val_def send_file_def range_len_def py_len_def sys_maxsize_def
      send_response_content_def range_str_def copyfile_def str_eval)

text \<open>
  An open range that starts beyond the end has a negative length, which \<open>len\<close>
  refuses: the handler raises and sends nothing.
\<close>

lemma media_get_open_range_beyond_eof_raises:
  "do_get_media (Some \<lparr> f_mime = ''video/mp4'', f_data = replicate 1000 (CHR ''x'') \<rparr>)
       (Some ''bytes=2000-'') = Inl ValueError"
  by (simp add: do_get_media_def st_size_def Range_init_def parse_range_def is_digit_def
      int_digits_def digit_val_def send_file_def range_len_def py_len_def)

text \<open>The reply is 416 exactly when the length of the range is 0.\<close>

lemma send_file_416_iff:
  "send_file f (Some r) = Inr (Send_error 416) \<longleftrightarrow> range_len r = 0"
  by (auto simp: send_file_def py_len_def Let_def sys_maxsize_def split: if_splits)


section \<open>The address book: insertion, ageing and selection\<close>

lemma map_of_setitem: "map_of (setitem k v d) = (map_of d)(k \<mapsto> v)"
  by (induction d) (auto simp: fun_eq_iff)

lemma keys_setitem:
  "keys (setitem k v d) = (if k \<in> set (keys d) then keys d else keys d @ [k])"
  by (induction d) (auto simp: keys_def)

lemma distinct_setitem: "distinct (keys d) \<Longrightarrow> distinct (keys (setitem k v d))"
  by (simp add: keys_setitem)

lemma set_setitem: "set (setitem k v d) \<subseteq> insert (k, v) (set d)"
  by (induction d) auto

lemma keys_delitem: "keys (delitem k d) = removeAll k (keys d)"
  by (induction d) (auto simp: keys_def delitem_def)

lemma distinct_filter_keys: "distinct (keys d) \<Longrightarrow> distinct (keys (filter P d))"
  by (simp add: keys_def distinct_map_filter)

lemma distinct_entry_unique:
  "distinct (keys d) \<Longrightarrow> map_of d k = Some v \<Longrightarrow> p \<in> set d \<Longrightarrow> fst p = k \<Longrightarrow> p = (k, v)"
  by (metis keys_def map_of_is_SomeI option.inject prod.collapse)

lemma update_step_filter:
  assumes "distinct (keys d)"
  shows "filter (\<lambda>p. \<not> (fst p \<in> set ks \<and> gt_num now (d_timeout (snd p))))
           (case map_of d a of
              None \<Rightarrow> d
            | Some v \<Rightarrow> if gt_num now (d_timeout v) then delitem a d else d) =
         filter (\<lambda>p. \<not> (fst p \<in> set (a # ks) \<and> gt_num now (d_timeout (snd p)))) d"
proof (cases "map_of d a")
  case None
  then have "\<And>p. p \<in> set d \<Longrightarrow> fst p \<noteq> a"
    by (metis map_of_eq_None_iff image_eqI)
  then have "filter (\<lambda>p. \<not> (fst p \<in> set ks \<and> gt_num now (d_timeout (snd p)))) d =
             filter (\<lambda>p. \<not> (fst p \<in> set (a # ks) \<and> gt_num now (d_timeout (snd p)))) d"
    by (intro filter_cong refl) simp
  with None show ?thesis by simp
next
  case (Some v)
  have u: "\<And>p. p \<in> set d \<Longrightarrow> fst p = a \<Longrightarrow> snd p = v"
    using distinct_entry_unique [OF assms Some] by fastforce
  show ?thesis
  proof (cases "gt_num now (d_timeout v)")
    case True
    have "filter (\<lambda>p. \<not> (fst p \<in> set ks \<and> gt_num now (d_timeout (snd p)))) (delitem a d) =
          filter (\<lambda>p. \<not> (fst p \<in> set (a # ks) \<and> gt_num now (d_timeout (snd p)))) d"
      unfolding delitem_def filter_filter
    proof (intro filter_cong refl)
      fix p assume p: "p \<in> set d"
      show "(fst p \<noteq> a \<and> \<not> (fst p \<in> set ks \<and> gt_num now (d_timeout (snd p)))) =
            (\<not> (fst p \<in> set (a # ks) \<and> gt_num now (d_timeout (snd p))))"
      proof (cases "fst p = a")
        case True
        with u [OF p] \<open>gt_num now (d_timeout v)\<close> show ?thesis by simp
      next
        case False
        then show ?thesis by simp
      qed
    qed
    with Some True show ?thesis by simp
  next
    case False
    have "filter (\<lambda>p. \<not> (fst p \<in> set ks \<and> gt_num now (d_timeout (snd p)))) d =
          filter (\<lambda>p. \<not> (fst p \<in> set (a # ks) \<and> gt_num now (d_timeout (snd p)))) d"
    proof (intro filter_cong refl)
      fix p assume p: "p \<in> set d"
      show "(\<not> (fst p \<in> set ks \<and> gt_num now (d_timeout (snd p)))) =
            (\<not> (fst p \<in> set (a # ks) \<and> gt_num now (d_timeout (snd p))))"
      proof (cases "fst p = a")
        case True
        with u [OF p] False show ?thesis by simp
      next
        case False
        then show ?thesis by simp
      qed
    qed
    with Some False show ?thesis by simp
  qed
qed

lemma distinct_update_step:
  "distinct (keys d) \<Longrightarrow>
   distinct (keys (case map_of d a of
                     None \<Rightarrow> d
                   | Some v \<Rightarrow> if gt_num now (d_timeout v) then delitem a d else d))"
  by (auto simp: delitem_def distinct_filter_keys split: option.splits)

lemma update_loop_filter:
  "distinct (keys d) \<Longrightarrow>
   update_loop now ks d =
     filter (\<lambda>p. \<not> (fst p \<in> set ks \<and> gt_num now (d_timeout (snd p)))) d"
proof (induction ks arbitrary: d)
  case Nil
  then show ?case by simp
next
  case (Cons a ks)
  from Cons.IH [OF distinct_update_step [OF Cons.prems]] update_step_filter [OF Cons.prems]
  show ?case by (simp only: update_loop.simps)
qed

lemma min_loop_least:
  fixes f :: "'a \<Rightarrow> 32 word"
  assumes "\<And>x. x \<in> set xs \<Longrightarrow> key x = Inr (f x)" "kbest = f best"
  shows "\<exists>r. min_loop key xs best kbest = Inr r \<and> r \<in> set (best # xs)
             \<and> (\<forall>x\<in>set (best # xs). f r \<le> f x)"
  using assms
proof (induction xs arbitrary: best kbest)
  case Nil
  then show ?case by simp
next
  case (Cons x xs)
  have kx: "key x = Inr (f x)" by (simp add: Cons.prems(1))
  show ?case
  proof (cases "f x < f best")
    case True
    from Cons.IH [where best = x and kbest = "f x"] Cons.prems(1)
    obtain r where r: "min_loop key xs x (f x) = Inr r" "r \<in> set (x # xs)"
      "\<forall>y\<in>set (x # xs). f r \<le> f y"
      by auto
    from r(3) True have "f r \<le> f best" by force
    with r kx True Cons.prems(2) show ?thesis by auto
  next
    case False
    from Cons.IH [where best = best and kbest = "f best"] Cons.prems(1)
    obtain r where r: "min_loop key xs best (f best) = Inr r" "r \<in> set (best # xs)"
      "\<forall>y\<in>set (best # xs). f r \<le> f y"
      by auto
    from r(3) False have "f r \<le> f x" by force
    with r kx False Cons.prems(2) show ?thesis by auto
  qed
qed

lemma py_min_least:
  fixes f :: "'a \<Rightarrow> 32 word"
  assumes "\<And>x. x \<in> set xs \<Longrightarrow> key x = Inr (f x)" "xs \<noteq> []"
  shows "\<exists>r. py_min key xs dflt = Inr r \<and> r \<in> set xs \<and> (\<forall>x\<in>set xs. f r \<le> f x)"
proof (cases xs)
  case Nil
  with assms show ?thesis by simp
next
  case (Cons x xs')
  with assms(1) have kx: "key x = Inr (f x)" by simp
  from min_loop_least [where xs = xs' and key = key and f = f and kbest = "f x" and best = x] assms(1) Cons
  show ?thesis by (auto simp: kx)
qed


lemma set_Address_iter:
  "set (Address_iter book) =
     (if ANY \<in> set (keys (entries book)) \<and> 1 < length (entries book)
      then set (keys (entries book)) - {ANY} else set (keys (entries book)))"
  by (simp add: Address_iter_def Let_def keys_delitem)

lemma book_ok_lookup:
  assumes "book_ok pack book" "a \<in> set (keys (entries book))"
  shows "\<exists>v. map_of (entries book) a = Some v \<and> pack a = Some (d_packed v)"
proof -
  from assms(2) obtain v where v: "(a, v) \<in> set (entries book)"
    by (auto simp: keys_def)
  from assms(1) have "distinct (map fst (entries book))"
    by (simp add: book_ok_def keys_def)
  with v have "map_of (entries book) a = Some v"
    by (rule map_of_is_SomeI [rotated])
  moreover from assms(1) v have "pack a = Some (d_packed v)"
    by (auto simp: book_ok_def list_all_iff)
  ultimately show ?thesis by blast
qed

lemma select_key_ok:
  assumes "book_ok pack book" "a \<in> set (Address_iter book)"
  shows "select_key book c a = Inr (packed_of pack a XOR c)"
proof -
  from assms(2) have "a \<in> set (keys (entries book))"
    by (simp add: set_Address_iter split: if_splits)
  from book_ok_lookup [OF assms(1) this] obtain v where
    "map_of (entries book) a = Some v" "pack a = Some (d_packed v)" by blast
  then show ?thesis
    by (simp add: select_key_def packed_of_def)
qed

lemma distinct_length_gt1:
  assumes "distinct ks" "a \<in> set ks" "b \<in> set ks" "a \<noteq> b"
  shows "1 < length ks"
proof -
  have "card {a, b} \<le> card (set ks)"
    using assms by (intro card_mono) auto
  with assms have "2 \<le> length ks"
    by (simp add: distinct_card)
  then show ?thesis by simp
qed

lemma Address_iter_real:
  assumes "distinct (keys (entries book))" "a \<in> set (keys (entries book))" "a \<noteq> ANY"
  shows "set (Address_iter book) = set (keys (entries book)) - {ANY}"
proof (cases "ANY \<in> set (keys (entries book))")
  case True
  from distinct_length_gt1 [OF assms(1,2) True assms(3)]
  have "1 < length (entries book)" by (simp add: keys_def)
  with True show ?thesis by (simp add: set_Address_iter)
next
  case False
  then show ?thesis by (simp add: set_Address_iter)
qed

lemma select_real:
  assumes ok: "book_ok pack book" and c: "pack client = Some c"
    and a: "a \<in> set (keys (entries book))" "a \<noteq> ANY"
  shows "\<exists>r. Address_select pack book client = Inr r
           \<and> r \<in> set (keys (entries book)) \<and> r \<noteq> ANY
           \<and> (\<forall>x\<in>set (keys (entries book)).
                 x \<noteq> ANY \<longrightarrow> packed_of pack r XOR c \<le> packed_of pack x XOR c)"
proof -
  from ok have d: "distinct (keys (entries book))" by (simp add: book_ok_def)
  have it: "set (Address_iter book) = set (keys (entries book)) - {ANY}"
    by (rule Address_iter_real [OF d a])
  have "a \<in> set (Address_iter book)"
    unfolding it using a by simp
  then have ne: "Address_iter book \<noteq> []"
    by (cases "Address_iter book") simp_all
  have k: "\<And>x. x \<in> set (Address_iter book) \<Longrightarrow>
             select_key book c x = Inr (packed_of pack x XOR c)"
    by (rule select_key_ok [OF ok])
  from py_min_least [where xs = "Address_iter book" and key = "select_key book c"
      and f = "\<lambda>x. packed_of pack x XOR c" and dflt = ANY, OF k ne]
  obtain r where r1: "py_min (select_key book c) (Address_iter book) ANY = Inr r"
    and r2: "r \<in> set (Address_iter book)"
    and r3: "\<forall>x\<in>set (Address_iter book). packed_of pack r XOR c \<le> packed_of pack x XOR c"
    by blast
  from r1 c have s: "Address_select pack book client = Inr r"
    by (simp add: Address_select_def)
  from r2 have m: "r \<in> set (keys (entries book))" "r \<noteq> ANY"
    unfolding it by simp_all
  have "packed_of pack r XOR c \<le> packed_of pack x XOR c"
    if "x \<in> set (keys (entries book))" "x \<noteq> ANY" for x
  proof -
    from that have "x \<in> set (Address_iter book)" unfolding it by simp
    with r3 show ?thesis by (rule bspec)
  qed
  with s m show ?thesis by blast
qed

lemma select_only_sentinel:
  assumes "pack client = Some c" "entries book = [(ANY, v)]"
  shows "Address_select pack book client = Inr ANY"
  using assms
  by (simp add: Address_select_def Address_iter_def keys_def select_key_def)

lemma select_empty:
  assumes "pack client = Some c" "entries book = []"
  shows "Address_select pack book client = Inr ANY"
  using assms
  by (simp add: Address_select_def Address_iter_def keys_def)

lemma Address_update_entries:
  "distinct (keys (entries book)) \<Longrightarrow>
   entries (Address_update now book) =
     filter (\<lambda>p. \<not> (fst p \<in> set (Address_iter book) \<and> gt_num now (d_timeout (snd p))))
       (entries book)"
  by (simp add: Address_update_def update_loop_filter)

lemma map_of_filter_keep:
  assumes "map_of d k = Some v" "P (k, v)"
  shows "map_of (filter P d) k = Some v"
  using assms by (induction d) (auto split: if_splits)

lemma map_of_filter_drop:
  assumes "distinct (map fst d)" "map_of d k = Some v" "\<not> P (k, v)"
  shows "map_of (filter P d) k = None"
  using assms
proof (induction d)
  case Nil
  then show ?case by simp
next
  case (Cons p d)
  show ?case
  proof (cases "fst p = k")
    case True
    with Cons.prems have "p = (k, v)" by (cases p) simp
    moreover from Cons.prems(1) True have "k \<notin> fst ` set d" by auto
    then have "k \<notin> fst ` set (filter P d)" by auto
    then have "map_of (filter P d) k = None" by (simp add: map_of_eq_None_iff)
    ultimately show ?thesis using Cons.prems(3) by simp
  next
    case False
    with Cons show ?thesis by (cases p) auto
  qed
qed

lemma Address_init_entries:
  assumes "pack a = Some pa"
  shows "Address_init pack now a t =
           Inr \<lparr> entries = [(a, \<lparr> d_timeout = PlusInf, d_packed = pa \<rparr>)], timeout = t \<rparr>"
  using assms by (simp add: Address_init_def Address_add_def Address_class_def)

lemma update_keeps_infinite:
  assumes "distinct (keys (entries book))" "map_of (entries book) k = Some v"
    "d_timeout v = PlusInf"
  shows "map_of (entries (Address_update now book)) k = Some v"
  unfolding Address_update_entries [OF assms(1)]
  by (rule map_of_filter_keep [OF assms(2)]) (simp add: assms(3))

lemma update_drops_expired:
  assumes "distinct (keys (entries book))" "map_of (entries book) k = Some v"
    "gt_num now (d_timeout v)" "k \<in> set (Address_iter book)"
  shows "map_of (entries (Address_update now book)) k = None"
  unfolding Address_update_entries [OF assms(1)]
  by (rule map_of_filter_drop [OF _ assms(2)]) (use assms in \<open>simp_all add: keys_def\<close>)

lemma add_entry:
  assumes "pack b = Some pb"
  shows "Address_add pack now book b =
           Inr (book \<lparr> entries := setitem b \<lparr> d_timeout = plus_num now (timeout book), d_packed = pb \<rparr> (entries book) \<rparr>)"
  using assms by (simp add: Address_add_def)

lemma real_key_iterated:
  assumes "k \<in> set (keys (entries book))" "k \<noteq> ANY"
  shows "k \<in> set (Address_iter book)"
  using assms by (simp add: set_Address_iter)

lemma book_ok_add:
  assumes "book_ok pack book" "Address_add pack now book b = Inr book'"
  shows "book_ok pack book'"
proof -
  from assms(2) obtain pb where pb: "pack b = Some pb"
    by (auto simp: Address_add_def split: option.splits)
  let ?v = "\<lparr> d_timeout = plus_num now (timeout book), d_packed = pb \<rparr>"
  from assms(2) pb have e: "entries book' = setitem b ?v (entries book)"
    by (auto simp: Address_add_def)
  from assms(1) have "distinct (keys (entries book'))"
    unfolding e by (simp add: book_ok_def distinct_setitem)
  moreover have "list_all (\<lambda>p. pack (fst p) = Some (d_packed (snd p))) (entries book')"
    unfolding e list_all_iff
  proof
    fix p assume "p \<in> set (setitem b ?v (entries book))"
    with set_setitem [of b ?v "entries book"] have "p = (b, ?v) \<or> p \<in> set (entries book)"
      by auto
    with assms(1) pb show "pack (fst p) = Some (d_packed (snd p))"
      by (auto simp: book_ok_def list_all_iff)
  qed
  ultimately show ?thesis by (simp add: book_ok_def)
qed

lemma book_ok_update:
  assumes "book_ok pack book"
  shows "book_ok pack (Address_update now book)"
proof -
  from assms have d: "distinct (keys (entries book))" by (simp add: book_ok_def)
  from assms show ?thesis
    unfolding book_ok_def Address_update_entries [OF d]
    by (simp add: distinct_filter_keys list_all_iff)
qed

lemma book_ok_init:
  assumes "Address_init pack now a t = Inr book"
  shows "book_ok pack book"
  using assms
  by (auto simp: Address_init_def Address_add_def Address_class_def book_ok_def keys_def
      split: option.splits)

text \<open>
  Claim C4. In a book whose entries hold the packing of their addresses, \<open>select\<close>
  for a client whose address packs returns an address; when the book has an entry
  other than the sentinel, the address returned is such an entry, and the XOR of its
  packing with the client's is at most that of every other such entry; when the
  sentinel is the only entry, it is returned.
\<close>

theorem select_minimizes_xor:
  assumes "book_ok pack book" and "pack client = Some c"
  shows "\<exists>r. Address_select pack book client = Inr r
           \<and> ((\<exists>a\<in>set (keys (entries book)). a \<noteq> ANY) \<longrightarrow>
                 r \<in> set (keys (entries book)) \<and> r \<noteq> ANY
                 \<and> (\<forall>x\<in>set (keys (entries book)). x \<noteq> ANY \<longrightarrow>
                       (\<exists>pr px. pack r = Some pr \<and> pack x = Some px
                                 \<and> pr XOR c \<le> px XOR c)))
           \<and> (keys (entries book) = [ANY] \<longrightarrow> r = ANY)"
proof (cases "\<exists>a\<in>set (keys (entries book)). a \<noteq> ANY")
  case True
  then obtain a where a: "a \<in> set (keys (entries book))" "a \<noteq> ANY" by blast
  from select_real [OF assms a] obtain r where
    r: "Address_select pack book client = Inr r" "r \<in> set (keys (entries book))" "r \<noteq> ANY"
    and least: "\<forall>x\<in>set (keys (entries book)).
         x \<noteq> ANY \<longrightarrow> packed_of pack r XOR c \<le> packed_of pack x XOR c"
    by blast
  have packs: "\<exists>p. pack x = Some p \<and> packed_of pack x = p"
    if "x \<in> set (keys (entries book))" for x
    using book_ok_lookup [OF assms(1) that] by (auto simp: packed_of_def)
  have "\<exists>pr px. pack r = Some pr \<and> pack x = Some px \<and> pr XOR c \<le> px XOR c"
    if x: "x \<in> set (keys (entries book))" "x \<noteq> ANY" for x
  proof -
    from packs [OF r(2)] obtain pr where pr: "pack r = Some pr" "packed_of pack r = pr"
      by blast
    from packs [OF x(1)] obtain px where px: "pack x = Some px" "packed_of pack x = px"
      by blast
    from least x have "packed_of pack r XOR c \<le> packed_of pack x XOR c" by blast
    with pr px show ?thesis by simp
  qed
  moreover from r(2,3) have "keys (entries book) \<noteq> [ANY]" by auto
  ultimately show ?thesis using r by blast
next
  case False
  show ?thesis
  proof (cases "entries book")
    case Nil
    with select_empty [where pack = pack and client = client and book = book, OF assms(2)]
    show ?thesis by (simp add: keys_def)
  next
    case (Cons p ps)
    from False Cons have p: "fst p = ANY" by (simp add: keys_def)
    have "ps = []"
    proof (rule ccontr)
      assume "ps \<noteq> []"
      then obtain q qs where q: "ps = q # qs" by (cases ps) auto
      with False Cons have "fst q = ANY" by (simp add: keys_def)
      with p q Cons assms(1) show False by (simp add: book_ok_def keys_def)
    qed
    with Cons p have "entries book = [(ANY, snd p)]" by (cases p) simp
    from select_only_sentinel [where pack = pack and client = client and book = book, OF assms(2) this] False
    show ?thesis by blast
  qed
qed

lemma pack_quad_scenario:
  "pack_quad ''0.0.0.0'' = Some 0"
  "pack_quad ''192.168.1.10'' = Some 3232235786"
  "pack_quad ''10.0.0.5'' = Some 167772165"
  "pack_quad ''192.168.1.77'' = Some 3232235853"
  by code_simp+

lemma scenario_book_ok: "book_ok pack_quad (s_addresses scenario_server)"
  by (simp add: book_ok_def scenario_server_def keys_def pack_quad_scenario)

lemma scenario_select:
  "Address_select pack_quad (s_addresses scenario_server) ''192.168.1.77'' = Inr ''192.168.1.10''"
  by (simp add: Address_select_def pack_quad_scenario scenario_server_def Address_iter_def
      keys_def delitem_def ANY_def select_key_def)

theorem select_minimizes_xor_witness:
  "book_ok pack_quad (s_addresses scenario_server)
   \<and> pack_quad ''192.168.1.77'' = Some 3232235853
   \<and> Address_select pack_quad (s_addresses scenario_server) ''192.168.1.77'' = Inr ''192.168.1.10''
   \<and> (\<exists>r. Address_select pack_quad (s_addresses scenario_server) ''192.168.1.77'' = Inr r
          \<and> r \<in> set (keys (entries (s_addresses scenario_server))) \<and> r \<noteq> ANY
          \<and> (\<exists>pr px. pack_quad r = Some pr \<and> pack_quad ''10.0.0.5'' = Some px
                \<and> pr XOR 3232235853 \<le> px XOR 3232235853))"
proof -
  have real: "\<exists>a\<in>set (keys (entries (s_addresses scenario_server))). a \<noteq> ANY"
    by (simp add: scenario_server_def keys_def ANY_def)
  have x: "''10.0.0.5'' \<in> set (keys (entries (s_addresses scenario_server)))"
    "''10.0.0.5'' \<noteq> ANY"
    by (simp_all add: scenario_server_def keys_def ANY_def)
  from select_minimizes_xor [OF scenario_book_ok pack_quad_scenario(4)] real x
  have "\<exists>r. Address_select pack_quad (s_addresses scenario_server) ''192.168.1.77'' = Inr r
          \<and> r \<in> set (keys (entries (s_addresses scenario_server))) \<and> r \<noteq> ANY
          \<and> (\<exists>pr px. pack_quad r = Some pr \<and> pack_quad ''10.0.0.5'' = Some px
                \<and> pr XOR 3232235853 \<le> px XOR 3232235853)"
    by blast
  with scenario_book_ok pack_quad_scenario(4) scenario_select show ?thesis by blast
qed

section \<open>The address book: expiry\<close>

text \<open>
  Claim C10, as the code has it. The constructor stores its address with expiry
  \<open>+inf\<close>, and \<open>update\<close> never removes an entry whose expiry is \<open>+inf\<close>. An
  address added afterwards is stored with expiry \<open>now + timeout\<close>; when it is not
  the sentinel, an \<open>update\<close> after that time removes it.
\<close>

theorem address_expiry:
  assumes "pack a = Some pa" and "pack b = Some pb" and "distinct (keys (entries book))"
  shows "Address_init pack now0 a t =
           Inr \<lparr> entries = [(a, \<lparr> d_timeout = PlusInf, d_packed = pa \<rparr>)], timeout = t \<rparr>
         \<and> (\<forall>k v. map_of (entries book) k = Some v \<and> d_timeout v = PlusInf \<longrightarrow>
                map_of (entries (Address_update now book)) k = Some v)
         \<and> (\<exists>book'. Address_add pack now1 book b = Inr book'
                \<and> map_of (entries book') b =
                    Some \<lparr> d_timeout = plus_num now1 (timeout book), d_packed = pb \<rparr>
                \<and> (b \<noteq> ANY \<and> gt_num now2 (plus_num now1 (timeout book)) \<longrightarrow>
                      map_of (entries (Address_update now2 book')) b = None))"
proof -
  let ?v = "\<lparr> d_timeout = plus_num now1 (timeout book), d_packed = pb \<rparr>"
  let ?book' = "book \<lparr> entries := setitem b ?v (entries book) \<rparr>"
  have add: "Address_add pack now1 book b = Inr ?book'"
    using assms(2) by (simp add: Address_add_def)
  have m: "map_of (entries ?book') b = Some ?v"
    by (simp add: map_of_setitem)
  have d: "distinct (keys (entries ?book'))"
    using assms(3) by (simp add: distinct_setitem)
  have gone: "map_of (entries (Address_update now2 ?book')) b = None"
    if "b \<noteq> ANY" "gt_num now2 (plus_num now1 (timeout book))"
  proof -
    have "b \<in> set (keys (entries ?book'))"
      by (simp add: keys_setitem)
    from real_key_iterated [OF this that(1)] have it: "b \<in> set (Address_iter ?book')" .
    from that(2) have "gt_num now2 (d_timeout ?v)" by simp
    from update_drops_expired [OF d m this it] show ?thesis .
  qed
  have keep: "map_of (entries (Address_update now book)) k = Some v"
    if "map_of (entries book) k = Some v" "d_timeout v = PlusInf" for k v
    using update_keeps_infinite [OF assms(3) that] .
  from Address_init_entries [where pack = pack and a = a, OF assms(1)] keep add m gone show ?thesis
    by blast
qed

theorem address_expiry_witness:
  "Address_init pack_quad 0 ''0.0.0.0'' (Num 30) =
     Inr \<lparr> entries = [(''0.0.0.0'', \<lparr> d_timeout = PlusInf, d_packed = 0 \<rparr>)],
           timeout = Num 30 \<rparr>
   \<and> map_of (entries (Address_update 1000
         \<lparr> entries = [(''0.0.0.0'', \<lparr> d_timeout = PlusInf, d_packed = 0 \<rparr>)],
           timeout = Num 30 \<rparr>)) ''0.0.0.0'' = Some \<lparr> d_timeout = PlusInf, d_packed = 0 \<rparr>
   \<and> (\<exists>book'. Address_add pack_quad 100
           \<lparr> entries = [(''0.0.0.0'', \<lparr> d_timeout = PlusInf, d_packed = 0 \<rparr>)],
             timeout = Num 30 \<rparr> ''192.168.1.10'' = Inr book'
         \<and> map_of (entries book') ''192.168.1.10'' =
              Some \<lparr> d_timeout = Num 130, d_packed = 3232235786 \<rparr>
         \<and> map_of (entries (Address_update 131 book')) ''192.168.1.10'' = None)"
proof -
  let ?book = "\<lparr> entries = [(''0.0.0.0'', \<lparr> d_timeout = PlusInf, d_packed = 0 \<rparr>)],
                  timeout = Num 30 \<rparr>"
  have d: "distinct (keys (entries ?book))"
    by (simp add: keys_def)
  have h: "''192.168.1.10'' \<noteq> ANY" "gt_num 131 (plus_num 100 (timeout ?book))"
    "map_of (entries ?book) ''0.0.0.0'' = Some \<lparr> d_timeout = PlusInf, d_packed = 0 \<rparr>"
    by (simp_all add: ANY_def)
  from address_expiry [where pack = pack_quad and a = "''0.0.0.0''" and b = "''192.168.1.10''"
      and book = ?book and ?now0.0 = 0 and t = "Num 30" and now = 1000 and ?now1.0 = 100
      and ?now2.0 = 131, OF pack_quad_scenario(1) pack_quad_scenario(2) d] h
  show ?thesis by simp
qed

text \<open>
  The claim as stated fails for the sentinel: added to a book that holds another
  address, \<open>0.0.0.0\<close> is left out of the iteration of \<open>update\<close> and stays in the
  book long after its expiry.
\<close>

theorem added_sentinel_outlives_expiry:
  "Address_init pack_quad 0 ''192.168.1.10'' (Num 30) =
     Inr \<lparr> entries = [(''192.168.1.10'', \<lparr> d_timeout = PlusInf, d_packed = 3232235786 \<rparr>)],
           timeout = Num 30 \<rparr>
   \<and> Address_add pack_quad 100
         \<lparr> entries = [(''192.168.1.10'', \<lparr> d_timeout = PlusInf, d_packed = 3232235786 \<rparr>)],
           timeout = Num 30 \<rparr> ''0.0.0.0'' =
     Inr \<lparr> entries = [(''192.168.1.10'', \<lparr> d_timeout = PlusInf, d_packed = 3232235786 \<rparr>),
                      (''0.0.0.0'', \<lparr> d_timeout = Num 130, d_packed = 0 \<rparr>)],
           timeout = Num 30 \<rparr>
   \<and> gt_num 1000 (Num 130)
   \<and> map_of (entries (Address_update 1000
         \<lparr> entries = [(''192.168.1.10'', \<lparr> d_timeout = PlusInf, d_packed = 3232235786 \<rparr>),
                      (''0.0.0.0'', \<lparr> d_timeout = Num 130, d_packed = 0 \<rparr>)],
           timeout = Num 30 \<rparr>)) ''0.0.0.0'' = Some \<lparr> d_timeout = Num 130, d_packed = 0 \<rparr>"
  by (simp add: Address_init_def Address_add_def Address_class_def pack_quad_scenario
      Address_update_def Address_iter_def keys_def delitem_def ANY_def)

section \<open>M-SEARCH\<close>

text \<open>
  Claim C5, as the code has it. An M-SEARCH is answered with no reply, whatever its
  \<open>ST\<close> header. \<open>send_discover\<close>, the reply the handler does not send, is for a
  target of the target map one reply with status 200 that carries the target, its
  USN and as \<open>Location\<close> the server's URL at the address \<open>select\<close> returns for the
  client.
\<close>

theorem m_search_sends_nothing:
  "do_m_search srv client headers = []
   \<and> (book_ok pack (s_addresses srv) \<and> pack client = Some c
        \<and> map_of (s_targets srv) target = Some usn \<longrightarrow>
        (\<exists>a. Address_select pack (s_addresses srv) client = Inr a
           \<and> send_discover pack srv client target =
               Inr (Reply 200
                      [(''EXT'', ''''), (''ST'', target),
                       (''Location'', replace_location (s_location srv) a), (''USN'', usn),
                       (''Cache-Control'', ''max-age='' @ str_int (s_timeout srv))]
                      [])))"
proof -
  have "\<exists>a. Address_select pack (s_addresses srv) client = Inr a
           \<and> send_discover pack srv client target =
               Inr (Reply 200
                      [(''EXT'', ''''), (''ST'', target),
                       (''Location'', replace_location (s_location srv) a), (''USN'', usn),
                       (''Cache-Control'', ''max-age='' @ str_int (s_timeout srv))]
                      [])"
    if ok: "book_ok pack (s_addresses srv)" and c: "pack client = Some c"
      and t: "map_of (s_targets srv) target = Some usn"
  proof -
    from select_minimizes_xor [OF ok c] obtain a where
      a: "Address_select pack (s_addresses srv) client = Inr a" by blast
    with t show ?thesis
      by (simp add: send_discover_def location_for_def)
  qed
  then show ?thesis
    by (simp add: do_m_search_def)
qed

lemma scenario_replace_location:
  "replace_location scenario_location ''192.168.1.10'' =
     ''http://192.168.1.10:8200/device-description.xml''"
  by (simp add: replace_location_def scenario_location_def Let_def str_nat.simps
      digit_char_simps)

theorem m_search_sends_nothing_witness:
  "do_m_search scenario_server ''192.168.1.77'' [(''ST'', ''upnp:rootdevice''), (''MX'', ''1'')] = []
   \<and> send_discover pack_quad scenario_server ''192.168.1.77'' ''upnp:rootdevice'' =
       Inr (Reply 200
              [(''EXT'', ''''), (''ST'', ''upnp:rootdevice''),
               (''Location'', ''http://192.168.1.10:8200/device-description.xml''),
               (''USN'', scenario_device @ ''::upnp:rootdevice''),
               (''Cache-Control'', ''max-age=30'')]
              [])"
proof -
  have t: "map_of (s_targets scenario_server) ''upnp:rootdevice'' =
             Some (scenario_device @ ''::upnp:rootdevice'')"
    by (simp add: scenario_server_def scenario_services_def)
  have l: "s_location scenario_server = scenario_location" "s_timeout scenario_server = 30"
    by (simp_all add: scenario_server_def)
  have s: "str_int 30 = ''30''"
    by (simp add: str_eval)
  from m_search_sends_nothing [where srv = scenario_server and client = "''192.168.1.77''"
      and headers = "[(''ST'', ''upnp:rootdevice''), (''MX'', ''1'')]" and pack = pack_quad
      and c = 3232235853 and target = "''upnp:rootdevice''"
      and usn = "scenario_device @ ''::upnp:rootdevice''"]
    scenario_book_ok pack_quad_scenario(4) t scenario_select
  show ?thesis
    by (simp add: l s scenario_replace_location)
qed

text \<open>
  The claim as stated fails: the M-SEARCH of the spec's scenario, whose \<open>ST\<close> is a key
  of the target map, gets no reply.
\<close>

theorem m_search_rootdevice_unanswered:
  "map_of (s_targets scenario_server) ''upnp:rootdevice'' =
     Some (scenario_device @ ''::upnp:rootdevice'')
   \<and> do_m_search scenario_server ''192.168.1.77''
         [(''ST'', ''upnp:rootdevice''), (''MX'', ''1'')] = []"
  by (simp add: scenario_server_def scenario_services_def do_m_search_def)

section \<open>The notifier's run\<close>

lemma send_notify_nts: "map_of (n_headers (send_notify srv target type address)) ''NTS'' = Some type"
  by (simp add: send_notify_def)

lemma send_notifies_nts: "burst_nts type (snd (send_notifies srv type now))"
  by (simp add: send_notifies_def burst_nts_def Let_def list_all_iff send_notify_nts)

lemma alive_loop_bursts:
  "alive_loop srv iterations = (srv', bursts, stopped) \<Longrightarrow>
   list_all (burst_nts ALIVE) bursts
   \<and> stopped = list_ex snd iterations
   \<and> length bursts = (if stopped then Suc (length (takeWhile (\<lambda>p. \<not> snd p) iterations))
                       else length iterations)"
proof (induction iterations arbitrary: srv srv' bursts stopped)
  case Nil
  then show ?case by simp
next
  case (Cons p iterations)
  obtain now shutdown where p: "p = (now, shutdown)" by (cases p)
  obtain srv1 burst where b: "send_notifies srv ALIVE now = (srv1, burst)"
    by (cases "send_notifies srv ALIVE now")
  from send_notifies_nts [of ALIVE srv now] b have nts: "burst_nts ALIVE burst" by simp
  show ?case
  proof (cases shutdown)
    case True
    with Cons.prems p b have "bursts = [burst]" "stopped" by simp_all
    with nts p True show ?thesis by simp
  next
    case False
    obtain srv2 bursts2 stopped2 where r: "alive_loop srv1 iterations = (srv2, bursts2, stopped2)"
      by (cases "alive_loop srv1 iterations")
    with Cons.prems p b False have e: "bursts = burst # bursts2" "stopped = stopped2"
      by simp_all
    from Cons.IH [OF r] nts e p False show ?thesis by simp
  qed
qed

text \<open>
  Claim C9. The first burst of a run is a BYE burst. When a wait reports the
  shutdown, the run returns and its bursts are the first BYE, then one ALIVE burst
  for each iteration up to that wait (at least one), then a last BYE; as long as no
  wait has reported it, every burst after the first is an ALIVE burst, one for each
  iteration, and no second BYE has been sent.
\<close>

theorem notify_lifecycle_order:
  "\<exists>first rest.
      fst (serve_forever srv now0 iterations now_end) = first # rest
      \<and> burst_nts BYE first
      \<and> (if snd (serve_forever srv now0 iterations now_end)
          then (\<exists>alive final. rest = alive @ [final]
                  \<and> length alive = Suc (length (takeWhile (\<lambda>p. \<not> snd p) iterations))
                  \<and> list_all (burst_nts ALIVE) alive \<and> burst_nts BYE final)
          else list_all (burst_nts ALIVE) rest \<and> length rest = length iterations)
      \<and> snd (serve_forever srv now0 iterations now_end) = list_ex snd iterations"
proof -
  obtain srv1 first where f: "send_notifies srv BYE now0 = (srv1, first)"
    by (cases "send_notifies srv BYE now0")
  obtain srv2 alive stopped where a: "alive_loop srv1 iterations = (srv2, alive, stopped)"
    by (cases "alive_loop srv1 iterations")
  obtain srv3 final where l: "send_notifies srv2 BYE now_end = (srv3, final)"
    by (cases "send_notifies srv2 BYE now_end")
  from send_notifies_nts [of BYE srv now0] f have nf: "burst_nts BYE first" by simp
  from send_notifies_nts [of BYE srv2 now_end] l have nl: "burst_nts BYE final" by simp
  note al = alive_loop_bursts [OF a]
  show ?thesis
  proof (cases stopped)
    case True
    with f a l have "serve_forever srv now0 iterations now_end = (first # alive @ [final], True)"
      by (simp add: serve_forever_def)
    with nf nl al True show ?thesis by simp
  next
    case False
    with f a have "serve_forever srv now0 iterations now_end = (first # alive, False)"
      by (simp add: serve_forever_def)
    with nf al False show ?thesis by simp
  qed
qed


lemma small_server_run:
  "map (map (\<lambda>m. map_of (n_headers m) ''NTS''))
       (fst (serve_forever small_server 0 [(10, False), (20, True), (30, False)] 21)) =
     [[Some BYE, Some BYE], [Some ALIVE, Some ALIVE], [Some ALIVE, Some ALIVE],
      [Some BYE, Some BYE]]
   \<and> snd (serve_forever small_server 0 [(10, False), (20, True), (30, False)] 21)"
  by (simp add: serve_forever_def send_notifies_def small_server_def Address_update_def
      Address_iter_def keys_def ANY_def send_notify_def Let_def)

theorem notify_lifecycle_order_witness:
  "snd (serve_forever small_server 0 [(10, False), (20, True), (30, False)] 21)
   \<and> list_ex snd [(10 :: int, False), (20, True), (30, False)]
   \<and> map (map (\<lambda>m. map_of (n_headers m) ''NTS''))
        (fst (serve_forever small_server 0 [(10, False), (20, True), (30, False)] 21)) =
      [[Some BYE, Some BYE], [Some ALIVE, Some ALIVE], [Some ALIVE, Some ALIVE],
       [Some BYE, Some BYE]]"
  using notify_lifecycle_order [of small_server 0 "[(10, False), (20, True), (30, False)]" 21]
    small_server_run
  by simp

lemma scenario_server_learned:
  "(case Server_init pack_quad 0 scenario_device scenario_location scenario_services 30 of
      Inl e \<Rightarrow> None
    | Inr s0 \<Rightarrow>
        (case do_notify pack_quad 100 s0 ''192.168.1.10'' [(''USN'', scenario_device)] of
           Inl e \<Rightarrow> None
         | Inr s1 \<Rightarrow>
             (case do_notify pack_quad 101 s1 ''10.0.0.5'' [(''USN'', scenario_device)] of
                Inl e \<Rightarrow> None
              | Inr s2 \<Rightarrow> Some s2))) = Some scenario_server"
  by (simp add: Server_init_def Address_init_def Address_add_def Address_class_def
      do_notify_def scenario_server_def scenario_location_def scenario_services_def
      scenario_device_def pack_quad_scenario)

section \<open>Object IDs and paths\<close>

lemma split_on_not_Nil: "split_on c s \<noteq> []"
  by (induction s) (auto split: list.splits)

lemma split_on_no_sep: "c \<notin> set s \<Longrightarrow> split_on c s = [s]"
  by (induction s) auto

lemma split_on_sep_Cons: "split_on c (c # rest) = [] # split_on c rest"
  using split_on_not_Nil [of c rest] by (cases "split_on c rest") simp_all

lemma split_on_append:
  "c \<notin> set p \<Longrightarrow> split_on c (p @ c # rest) = p # split_on c rest"
proof (induction p)
  case Nil
  show ?case by (simp only: append_Nil split_on_sep_Cons)
next
  case (Cons x p)
  then have "x \<noteq> c" "split_on c (p @ c # rest) = p # split_on c rest" by auto
  then show ?case by simp
qed

lemma split_on_join_sep:
  "parts \<noteq> [] \<Longrightarrow> list_all (\<lambda>p. c \<notin> set p) parts \<Longrightarrow>
   split_on c (join_sep [c] parts) = parts"
proof (induction parts)
  case Nil
  then show ?case by simp
next
  case (Cons x parts)
  show ?case
  proof (cases parts)
    case Nil
    with Cons.prems show ?thesis by (simp add: split_on_no_sep)
  next
    case (Cons y ys)
    with Cons.IH Cons.prems have "split_on c (join_sep [c] (y # ys)) = y # ys" by simp
    moreover from Cons.prems have "c \<notin> set x" by simp
    ultimately show ?thesis using Cons by (simp add: split_on_append)
  qed
qed

lemma join_sep_wf_head:
  assumes "parts \<noteq> []" "list_all wf_part parts"
  shows "\<exists>ch rest. join_sep ''/'' parts = ch # rest \<and> ch \<noteq> CHR ''/''"
proof -
  from assms obtain x xs where p: "parts = x # xs" by (cases parts) auto
  with assms(2) obtain ch r where x: "x = ch # r" "ch \<noteq> CHR ''/''"
    by (cases x) (auto simp: wf_part_def)
  show ?thesis
  proof (cases xs)
    case Nil
    with p x show ?thesis by simp
  next
    case (Cons y ys)
    with p x show ?thesis by simp
  qed
qed

lemma parse_path_root: "parse_path ''/'' = \<lparr> p_root = ''/'', p_parts = [] \<rparr>"
  by (simp add: parse_path_def splitroot_def)

lemma wf_part_filter:
  "list_all wf_part parts \<Longrightarrow> filter (\<lambda>x. x \<noteq> [] \<and> x \<noteq> ''.'') parts = parts"
  by (induction parts) (auto simp: wf_part_def)

lemma parse_path_absolute:
  assumes "parts \<noteq> []" "list_all wf_part parts"
  shows "parse_path (''/'' @ join_sep ''/'' parts) = \<lparr> p_root = ''/'', p_parts = parts \<rparr>"
proof -
  from join_sep_wf_head [OF assms] obtain ch rest where
    j: "join_sep ''/'' parts = ch # rest" "ch \<noteq> CHR ''/''" by blast
  then have sr: "splitroot (''/'' @ join_sep ''/'' parts) = (''/'', join_sep ''/'' parts)"
    by (simp add: splitroot_def)
  from assms(2) have "list_all (\<lambda>p. CHR ''/'' \<notin> set p) parts"
    by (simp add: list_all_iff wf_part_def)
  from split_on_join_sep [OF assms(1) this]
  have "split_on CHR ''/'' (join_sep ''/'' parts) = parts" .
  with sr assms(2) show ?thesis
    by (simp add: parse_path_def wf_part_filter)
qed

lemma as_id_absolute:
  "as_id \<lparr> p_root = ''/'', p_parts = parts \<rparr> =
     (if parts = [] then ''0'' else ''/'' @ join_sep ''/'' parts)"
  by (simp add: as_id_def parse_path_root path_str_def)

lemma from_id_as_id:
  assumes "list_all wf_part parts"
  shows "from_id (as_id \<lparr> p_root = ''/'', p_parts = parts \<rparr>) = \<lparr> p_root = ''/'', p_parts = parts \<rparr>"
proof (cases "parts = []")
  case True
  then show ?thesis by (simp add: as_id_absolute from_id_def parse_path_root)
next
  case False
  from parse_path_absolute [OF False assms] False show ?thesis
    by (simp add: as_id_absolute from_id_def)
qed

lemma as_path_absolute:
  "as_path \<lparr> p_root = ''/'', p_parts = parts \<rparr> root =
     Inr \<lparr> p_root = p_root root, p_parts = p_parts root @ parts \<rparr>"
  by (simp add: as_path_def relative_to_def parse_path_root joinpath_def)

lemma from_path_under:
  assumes "relative_to p root = Inr rel"
  shows "from_path root p = Inr \<lparr> p_root = ''/'', p_parts = p_parts rel \<rparr>"
    and "p_root rel = []" and "p_root p = p_root root" and "p_parts p = p_parts root @ p_parts rel"
proof -
  from assms have r: "p_root p = p_root root"
    "take (length (p_parts root)) (p_parts p) = p_parts root"
    "rel = \<lparr> p_root = [], p_parts = drop (length (p_parts root)) (p_parts p) \<rparr>"
    by (auto simp: relative_to_def split: if_splits)
  from r(3) show "p_root rel = []" by simp
  from r(1) show "p_root p = p_root root" .
  from r(2,3) show "p_parts p = p_parts root @ p_parts rel"
    by (metis append_take_drop_id path.select_convs(2))
  from assms r(3) show "from_path root p = Inr \<lparr> p_root = ''/'', p_parts = p_parts rel \<rparr>"
    by (simp add: from_path_def joinpath_def parse_path_root)
qed

lemma split_on_parts_no_sep: "x \<in> set (split_on c s) \<Longrightarrow> c \<notin> set x"
proof (induction s arbitrary: x)
  case Nil
  then show ?case by simp
next
  case (Cons a s)
  obtain w ws where w: "split_on c s = w # ws"
    using split_on_not_Nil [of c s] by (cases "split_on c s") auto
  show ?case
  proof (cases "a = c")
    case True
    with Cons.prems w have "x = [] \<or> x \<in> set (split_on c s)" by auto
    with Cons.IH show ?thesis by auto
  next
    case False
    with Cons.prems w have "x = a # w \<or> x \<in> set ws" by auto
    moreover from Cons.IH [of w] w have "c \<notin> set w" by simp
    moreover from Cons.IH w have "\<And>y. y \<in> set ws \<Longrightarrow> c \<notin> set y" by simp
    ultimately show ?thesis using False by auto
  qed
qed

lemma wf_parse_path: "wf_path (parse_path s)"
proof -
  have "list_all wf_part (filter (\<lambda>x. x \<noteq> [] \<and> x \<noteq> ''.'') (split_on CHR ''/'' r))" for r
    using split_on_parts_no_sep [of _ "CHR ''/''" r]
    by (auto simp: list_all_iff wf_part_def)
  then show ?thesis
    by (simp add: wf_path_def parse_path_def splitroot_def Let_def)
qed

lemma path_eq_iff: "(p :: path) = q \<longleftrightarrow> p_root p = p_root q \<and> p_parts p = p_parts q"
  by (cases p, cases q) auto

lemma round_trip:
  assumes "wf_path p" and "relative_to p root = Inr rel"
  shows "id_of_path root p = Inr (as_id \<lparr> p_root = ''/'', p_parts = p_parts rel \<rparr>)"
    and "path_of_id root (as_id \<lparr> p_root = ''/'', p_parts = p_parts rel \<rparr>) = Inr p"
proof -
  note u = from_path_under [OF assms(2)]
  from u(1) show "id_of_path root p = Inr (as_id \<lparr> p_root = ''/'', p_parts = p_parts rel \<rparr>)"
    by (simp add: id_of_path_def)
  from assms(1) u(4) have wf: "list_all wf_part (p_parts rel)"
    by (simp add: wf_path_def)
  have "\<lparr> p_root = p_root root, p_parts = p_parts root @ p_parts rel \<rparr> = p"
    using u(3,4) by (simp add: path_eq_iff)
  then show "path_of_id root (as_id \<lparr> p_root = ''/'', p_parts = p_parts rel \<rparr>) = Inr p"
    by (simp add: path_of_id_def from_id_as_id [OF wf] as_path_absolute)
qed

text \<open>
  Claim C3. For a path \<open>p\<close> under the root, the ID \<open>from_path(root, p).as_id()\<close>
  exists and \<open>from_id\<close> and \<open>as_path(root)\<close> lead from it back to \<open>p\<close>; the ID is
  \<open>0\<close> exactly for the root itself and otherwise \<open>/\<close> followed by the path relative to
  the root; no other path under the root has the same ID; and \<open>0\<close> names the root.
\<close>

theorem id_path_round_trip:
  assumes "wf_path p" and "relative_to p root = Inr rel"
  shows "(\<exists>ident. id_of_path root p = Inr ident
            \<and> path_of_id root ident = Inr p
            \<and> (ident = ''0'') = (p = root)
            \<and> (p \<noteq> root \<longrightarrow> ident = ''/'' @ path_str rel)
            \<and> (\<forall>q. wf_path q \<and> id_of_path root q = Inr ident \<longrightarrow> q = p))
         \<and> path_of_id root ''0'' = Inr root"
proof -
  let ?ident = "as_id \<lparr> p_root = ''/'', p_parts = p_parts rel \<rparr>"
  note u = from_path_under [OF assms(2)]
  note rt = round_trip [OF assms]
  have root_iff: "(p = root) = (p_parts rel = [])"
    using u(3,4) by (auto simp: path_eq_iff)
  have zero: "(?ident = ''0'') = (p = root)"
    unfolding root_iff by (simp add: as_id_absolute)
  have other: "?ident = ''/'' @ path_str rel" if "p \<noteq> root"
  proof -
    from that root_iff have ne: "p_parts rel \<noteq> []" by simp
    then obtain x xs where "p_parts rel = x # xs" by (cases "p_parts rel") auto
    moreover from assms(1) u(4) have "list_all wf_part (p_parts rel)"
      by (simp add: wf_path_def)
    ultimately have "join_sep ''/'' (p_parts rel) \<noteq> []"
      by (cases xs) (auto simp: wf_part_def)
    with u(2) ne show ?thesis
      by (simp add: as_id_absolute path_str_def)
  qed
  have inj: "q = p" if "wf_path q" "id_of_path root q = Inr ?ident" for q
  proof -
    from that(2) obtain relq where rq: "relative_to q root = Inr relq"
      by (cases "relative_to q root") (auto simp: id_of_path_def from_path_def)
    from round_trip [OF that(1) rq] that(2)
    have "path_of_id root ?ident = Inr q" by simp
    with rt(2) show ?thesis by simp
  qed
  have "path_of_id root ''0'' = Inr root"
    by (simp add: path_of_id_def from_id_def parse_path_root as_path_absolute)
  with rt zero other inj show ?thesis by blast
qed

lemma parse_path_examples:
  "parse_path ''/srv/media'' = media_root"
  "parse_path ''/movies/a.mp4'' = \<lparr> p_root = ''/'', p_parts = [''movies'', ''a.mp4''] \<rparr>"
  "parse_path ''//x/./y/'' = \<lparr> p_root = ''//'', p_parts = [''x'', ''y''] \<rparr>"
  "parse_path ''movies//a.mp4'' = \<lparr> p_root = [], p_parts = [''movies'', ''a.mp4''] \<rparr>"
  "parse_path [] = \<lparr> p_root = [], p_parts = [] \<rparr>"
  by (simp_all add: parse_path_def splitroot_def media_root_def)

theorem id_path_round_trip_witness:
  "id_of_path media_root \<lparr> p_root = ''/'', p_parts = [''srv'', ''media'', ''movies'', ''a.mp4''] \<rparr>
     = Inr ''/movies/a.mp4''
   \<and> path_of_id media_root ''/movies/a.mp4''
     = Inr \<lparr> p_root = ''/'', p_parts = [''srv'', ''media'', ''movies'', ''a.mp4''] \<rparr>
   \<and> id_of_path media_root media_root = Inr ''0''
   \<and> path_of_id media_root ''0'' = Inr media_root"
proof -
  let ?p = "\<lparr> p_root = ''/'', p_parts = [''srv'', ''media'', ''movies'', ''a.mp4''] \<rparr>"
  let ?rel = "\<lparr> p_root = [], p_parts = [''movies'', ''a.mp4''] \<rparr>"
  have wf: "wf_path ?p" "wf_path media_root"
    by (simp_all add: wf_path_def wf_part_def media_root_def)
  have rel: "relative_to ?p media_root = Inr ?rel"
    "relative_to media_root media_root = Inr \<lparr> p_root = [], p_parts = [] \<rparr>"
    by (simp_all add: relative_to_def media_root_def)
  have ne: "?p \<noteq> media_root"
    by (simp add: media_root_def)
  have s: "path_str ?rel = ''movies/a.mp4''"
    by (simp add: path_str_def)
  from id_path_round_trip [OF wf(1) rel(1)] ne s
  have "id_of_path media_root ?p = Inr ''/movies/a.mp4''"
    "path_of_id media_root ''/movies/a.mp4'' = Inr ?p"
    by auto
  moreover from id_path_round_trip [OF wf(2) rel(2)]
  have "id_of_path media_root media_root = Inr ''0''"
    "path_of_id media_root ''0'' = Inr media_root"
    by auto
  ultimately show ?thesis by blast
qed

text \<open>
  \<open>from_id\<close> reads more strings than \<open>as_id\<close> writes: \<open>/\<close> names the root as \<open>0\<close>
  does, and a string with no leading slash names no path under the root.
\<close>

lemma from_id_other_spellings:
  "from_id ''/'' = from_id ''0''"
  "from_id ''/a//b/'' = from_id ''/a/b''"
  "path_of_id media_root ''a'' = Inl ValueError"
  by (simp_all add: from_id_def parse_path_def splitroot_def path_of_id_def as_path_def
      relative_to_def)

end
